theory Spec2Isabelle
  imports Complex_Main "HOL-Library.Log_Nat" "HOL-Library.AList" "HOL-Library.Monad_Syntax"
begin

section \<open>JavaScript numbers\<close>

text \<open>
  A JavaScript Number is an IEEE-754 double. \<open>Fin r\<close> is the finite double whose value is
  the rational \<open>r\<close>; the two zeros are identified (no test of the program tells them
  apart: \<open>===\<close>, \<open>Number.isFinite\<close>, truthiness and \<open>String\<close> agree on them).
  Every arithmetic result is rounded to the nearest double, ties to even, and a result that
  rounds to magnitude \<open>2 ^ 1024\<close> or more overflows to an infinity.
\<close>

datatype jsnum = Fin rat | PInf | NInf | NaN

definition round_half_even :: "rat \<Rightarrow> int" where
  "round_half_even q =
     (let f = \<lfloor>q\<rfloor>; d = q - of_int f
      in if d < 1 / 2 then f else if 1 / 2 < d then f + 1 else if even f then f else f + 1)"

text \<open>\<open>floor_log2 r\<close> is the binary exponent of a positive rational:
  \<open>2 powi floor_log2 r \<le> r < 2 powi (floor_log2 r + 1)\<close>.\<close>

definition floor_log2 :: "rat \<Rightarrow> int" where
  "floor_log2 r = (if 1 \<le> r then bitlen \<lfloor>r\<rfloor> - 1 else - bitlen (\<lceil>1 / r\<rceil> - 1))"

text \<open>The unit in the last place of a double with 53 significant bits; subnormal numbers
  share the exponent \<open>- 1074\<close>.\<close>

definition ulp_exp :: "rat \<Rightarrow> int" where
  "ulp_exp r = max (- 1074) (floor_log2 \<bar>r\<bar> - 52)"

definition rnd :: "rat \<Rightarrow> jsnum" where
  "rnd r =
     (if r = 0 then Fin 0
      else let u = 2 powi (ulp_exp r);
               v = of_int (round_half_even (r / u)) * u
           in if 2 ^ 1024 \<le> v then PInf else if v \<le> - (2 ^ 1024) then NInf else Fin v)"

fun isFinite :: "jsnum \<Rightarrow> bool" where
  "isFinite (Fin r) = True"
| "isFinite PInf = False"
| "isFinite NInf = False"
| "isFinite NaN = False"

fun neg :: "jsnum \<Rightarrow> jsnum" where
  "neg (Fin r) = Fin (- r)"
| "neg PInf = NInf"
| "neg NInf = PInf"
| "neg NaN = NaN"

text \<open>\<open>x + y\<close> on doubles.\<close>

fun add :: "jsnum \<Rightarrow> jsnum \<Rightarrow> jsnum" where
  "add (Fin a) (Fin b) = rnd (a + b)"
| "add NaN y = NaN"
| "add x NaN = NaN"
| "add PInf NInf = NaN"
| "add NInf PInf = NaN"
| "add PInf y = PInf"
| "add NInf y = NInf"
| "add x PInf = PInf"
| "add x NInf = NInf"

text \<open>\<open>x - y\<close> on doubles.\<close>

definition sub :: "jsnum \<Rightarrow> jsnum \<Rightarrow> jsnum" where
  "sub x y = add x (neg y)"

text \<open>The sign of a number as seen by a product with an infinity: \<open>0\<close> for a zero.\<close>

fun signum :: "jsnum \<Rightarrow> int" where
  "signum (Fin r) = (if r < 0 then - 1 else if 0 < r then 1 else 0)"
| "signum PInf = 1"
| "signum NInf = - 1"
| "signum NaN = 0"

text \<open>\<open>x * y\<close> on doubles: a product with an infinity is an infinity of the product's
  sign, and \<open>0 * Infinity\<close> is \<open>NaN\<close>.\<close>

definition mul :: "jsnum \<Rightarrow> jsnum \<Rightarrow> jsnum" where
  "mul x y =
     (case (x, y) of
        (Fin a, Fin b) \<Rightarrow> rnd (a * b)
      | _ \<Rightarrow>
          if x = NaN \<or> y = NaN \<or> signum x * signum y = 0 then NaN
          else if 0 < signum x * signum y then PInf else NInf)"

text \<open>\<open>x < y\<close> on doubles: false when either side is \<open>NaN\<close>.\<close>

fun lt :: "jsnum \<Rightarrow> jsnum \<Rightarrow> bool" where
  "lt (Fin a) (Fin b) = (a < b)"
| "lt NaN y = False"
| "lt x NaN = False"
| "lt PInf y = False"
| "lt x NInf = False"
| "lt NInf y = True"
| "lt x PInf = True"

text \<open>\<open>Math.max(x, y)\<close>: \<open>NaN\<close> when either argument is \<open>NaN\<close>.\<close>

definition Math_max :: "jsnum \<Rightarrow> jsnum \<Rightarrow> jsnum" where
  "Math_max x y = (if x = NaN \<or> y = NaN then NaN else if lt x y then y else x)"

section \<open>Strings\<close>

text \<open>
  Strings are lists of code units below 256. \<open>is_ws\<close> is the white space and line
  terminator set of \<open>String.prototype.trim\<close> and of string-to-number conversion in that
  range: TAB, LF, VT, FF, CR, SP and NBSP.
\<close>

definition is_ws :: "char \<Rightarrow> bool" where
  "is_ws c = ((of_char c :: nat) \<in> {9, 10, 11, 12, 13, 32, 160})"

definition trim :: "string \<Rightarrow> string" where
  "trim s = rev (dropWhile is_ws (rev (dropWhile is_ws s)))"

definition lower_char :: "char \<Rightarrow> char" where
  "lower_char c =
     (let n = (of_char c :: nat)
      in if (65 \<le> n \<and> n \<le> 90) \<or> (192 \<le> n \<and> n \<le> 222 \<and> n \<noteq> 215)
         then char_of (n + 32) else c)"

definition toLowerCase :: "string \<Rightarrow> string" where
  "toLowerCase s = map lower_char s"

definition digit_char :: "nat \<Rightarrow> char" where
  "digit_char d = char_of (48 + d)"

text \<open>The decimal numeral of an array index.\<close>

fun nat_to_str :: "nat \<Rightarrow> string" where
  "nat_to_str n = (if n < 10 then [digit_char n] else nat_to_str (n div 10) @ [digit_char (n mod 10)])"

definition join :: "string \<Rightarrow> string list \<Rightarrow> string" where
  "join sep ss = (case ss of [] \<Rightarrow> [] | s # rest \<Rightarrow> s @ concat (map (\<lambda>t. sep @ t) rest))"

subsection \<open>String to number\<close>

text \<open>
  \<open>StringToNumber\<close> follows the \<open>StringNumericLiteral\<close> grammar of ECMAScript: the
  trimmed string is empty (\<open>0\<close>), a signed \<open>Infinity\<close>, an unsigned binary, octal or
  hexadecimal integer with its prefix, or a signed decimal literal with optional fraction
  and exponent; anything else is \<open>NaN\<close>. The exact value is rounded to a double.
\<close>

definition digit_of :: "char \<Rightarrow> nat option" where
  "digit_of c =
     (let n = (of_char c :: nat)
      in if 48 \<le> n \<and> n \<le> 57 then Some (n - 48)
         else if 97 \<le> n \<and> n \<le> 102 then Some (n - 87)
         else if 65 \<le> n \<and> n \<le> 70 then Some (n - 55)
         else None)"

definition is_digit :: "nat \<Rightarrow> char \<Rightarrow> bool" where
  "is_digit b c = (case digit_of c of None \<Rightarrow> False | Some d \<Rightarrow> d < b)"

definition digits_val :: "nat \<Rightarrow> string \<Rightarrow> nat" where
  "digits_val b ds = foldl (\<lambda>acc c. acc * b + (case digit_of c of None \<Rightarrow> 0 | Some d \<Rightarrow> d)) 0 ds"

definition parse_digits :: "nat \<Rightarrow> string \<Rightarrow> nat option" where
  "parse_digits b ds = (if ds \<noteq> [] \<and> list_all (is_digit b) ds then Some (digits_val b ds) else None)"

definition parse_radix :: "string \<Rightarrow> nat option" where
  "parse_radix t =
     (case t of
        z # x # ds \<Rightarrow>
          if z \<noteq> CHR ''0'' then None
          else if x = CHR ''x'' \<or> x = CHR ''X'' then parse_digits 16 ds
          else if x = CHR ''o'' \<or> x = CHR ''O'' then parse_digits 8 ds
          else if x = CHR ''b'' \<or> x = CHR ''B'' then parse_digits 2 ds
          else None
      | _ \<Rightarrow> None)"

definition parse_exponent :: "string \<Rightarrow> int option" where
  "parse_exponent s =
     (case s of
        [] \<Rightarrow> Some 0
      | e # r \<Rightarrow>
          if e \<noteq> CHR ''e'' \<and> e \<noteq> CHR ''E'' then None
          else (case r of
                  [] \<Rightarrow> None
                | g # ds \<Rightarrow>
                    if g = CHR ''+'' then map_option int (parse_digits 10 ds)
                    else if g = CHR ''-'' then map_option (\<lambda>n. - int n) (parse_digits 10 ds)
                    else map_option int (parse_digits 10 r)))"

definition parse_unsigned_decimal :: "string \<Rightarrow> rat option" where
  "parse_unsigned_decimal u =
     (let ip = takeWhile (is_digit 10) u;
          r1 = dropWhile (is_digit 10) u;
          dot = (r1 \<noteq> [] \<and> hd r1 = CHR ''.'');
          fp = (if dot then takeWhile (is_digit 10) (tl r1) else []);
          r2 = (if dot then dropWhile (is_digit 10) (tl r1) else r1)
      in if ip = [] \<and> fp = [] then None
         else (case parse_exponent r2 of
                 None \<Rightarrow> None
               | Some e \<Rightarrow> Some (of_nat (digits_val 10 (ip @ fp)) * 10 powi (e - int (length fp)))))"

definition parse_decimal :: "string \<Rightarrow> rat option" where
  "parse_decimal t =
     (case t of
        [] \<Rightarrow> None
      | g # u \<Rightarrow>
          if g = CHR ''+'' then parse_unsigned_decimal u
          else if g = CHR ''-'' then map_option uminus (parse_unsigned_decimal u)
          else parse_unsigned_decimal t)"

definition StringToNumber :: "string \<Rightarrow> jsnum" where
  "StringToNumber s =
     (let t = trim s
      in if t = [] then Fin 0
         else if t = ''Infinity'' \<or> t = ''+Infinity'' then PInf
         else if t = ''-Infinity'' then NInf
         else (case parse_radix t of
                 Some n \<Rightarrow> rnd (of_nat n)
               | None \<Rightarrow> (case parse_decimal t of Some r \<Rightarrow> rnd r | None \<Rightarrow> NaN)))"

section \<open>JavaScript values\<close>

text \<open>
  The values a draft can hold: what \<open>JSON.parse\<close> and the form's state produce, and
  \<open>undefined\<close>. An object is the list of its own enumerable data properties in
  enumeration order; a missing property reads as \<open>undefined\<close>. No value is a function. The
  prototype chain is not modelled: none of the property names the program reads is an array
  index or \<open>length\<close>, and none is inherited by a plain object, an array or a primitive.
\<close>

datatype jsval =
    Undefined
  | Null
  | Bool bool
  | Num jsnum
  | Str string
  | Arr "jsval list"
  | Obj "(string \<times> jsval) list"

type_synonym props = "(string \<times> jsval) list"

definition lookup :: "props \<Rightarrow> string \<Rightarrow> jsval" where
  "lookup kvs k = (case map_of kvs k of None \<Rightarrow> Undefined | Some v \<Rightarrow> v)"

definition has_key :: "props \<Rightarrow> string \<Rightarrow> bool" where
  "has_key kvs k = (k \<in> set (map fst kvs))"

text \<open>\<open>v == null\<close>.\<close>

definition nullish :: "jsval \<Rightarrow> bool" where
  "nullish v = (v = Undefined \<or> v = Null)"

text \<open>\<open>v?.k\<close> for any \<open>v\<close>, and \<open>v.k\<close> for a \<open>v\<close> that is not \<open>null\<close> or \<open>undefined\<close>;
  where the source reads \<open>v.k\<close> without a guard, the \<open>TypeError\<close> it throws on
  \<open>null\<close> and \<open>undefined\<close> is a branch of the calling function (the result \<open>None\<close>).\<close>

definition get :: "jsval \<Rightarrow> string \<Rightarrow> jsval" where
  "get v k = (case v of Obj kvs \<Rightarrow> lookup kvs k | _ \<Rightarrow> Undefined)"

text \<open>\<open>o[k] = v\<close> on the properties of an object: an existing property keeps its place,
  a new one is added last. (A new key that is an array index would be enumerated before the
  other keys, and the key \<open>__proto__\<close> would set the prototype; the program assigns neither
  by name, and the properties of \<open>mergeDraft\<close> below are stated on property reads.)\<close>

definition put :: "props \<Rightarrow> string \<Rightarrow> jsval \<Rightarrow> props" where
  "put kvs k v = AList.update k v kvs"

definition truthy :: "jsval \<Rightarrow> bool" where
  "truthy v =
     (case v of
        Undefined \<Rightarrow> False
      | Null \<Rightarrow> False
      | Bool b \<Rightarrow> b
      | Num n \<Rightarrow> n \<noteq> Fin 0 \<and> n \<noteq> NaN
      | Str s \<Rightarrow> s \<noteq> []
      | Arr xs \<Rightarrow> True
      | Obj kvs \<Rightarrow> True)"

text \<open>\<open>a || b\<close> and \<open>a ?? b\<close>.\<close>

definition or_js :: "jsval \<Rightarrow> jsval \<Rightarrow> jsval" where
  "or_js a b = (if truthy a then a else b)"

definition coalesce :: "jsval \<Rightarrow> jsval \<Rightarrow> jsval" where
  "coalesce a b = (if nullish a then b else a)"

definition typeof :: "jsval \<Rightarrow> string" where
  "typeof v =
     (case v of
        Undefined \<Rightarrow> ''undefined''
      | Null \<Rightarrow> ''object''
      | Bool b \<Rightarrow> ''boolean''
      | Num n \<Rightarrow> ''number''
      | Str s \<Rightarrow> ''string''
      | Arr xs \<Rightarrow> ''object''
      | Obj kvs \<Rightarrow> ''object'')"

definition isArray :: "jsval \<Rightarrow> bool" where
  "isArray v = (case v of Arr xs \<Rightarrow> True | _ \<Rightarrow> False)"

text \<open>A value that is not \<open>null\<close> and whose \<open>typeof\<close> is \<open>"object"\<close>.\<close>

definition is_object :: "jsval \<Rightarrow> bool" where
  "is_object v = (case v of Arr xs \<Rightarrow> True | Obj kvs \<Rightarrow> True | _ \<Rightarrow> False)"

definition elems :: "jsval \<Rightarrow> jsval list" where
  "elems v = (case v of Arr xs \<Rightarrow> xs | _ \<Rightarrow> [])"

definition indexed :: "'a list \<Rightarrow> (string \<times> 'a) list" where
  "indexed xs = zip (map nat_to_str [0 ..< length xs]) xs"

text \<open>\<open>Object.entries(v)\<close>, which is also what the spread \<open>{...v}\<close> copies: the
  properties of an object, the indexed elements of an array, the indexed code units of a
  string, nothing for any other value.\<close>

definition entries :: "jsval \<Rightarrow> props" where
  "entries v =
     (case v of
        Obj kvs \<Rightarrow> kvs
      | Arr xs \<Rightarrow> indexed xs
      | Str s \<Rightarrow> indexed (map (\<lambda>c. Str [c]) s)
      | _ \<Rightarrow> [])"

text \<open>
  \<open>String(v)\<close>, with \<open>None\<close> for the \<open>TypeError\<close> it can throw. The decimal
  representation of a number is the host's \<open>Number::toString\<close>; it is the parameter
  \<open>n2s\<close>, and every result below holds for every such function. An object is converted by
  its \<open>toString\<close> method, then by \<open>valueOf\<close>: a plain object inherits both, and the result
  is \<open>"[object Object]"\<close>; but an own property named \<open>toString\<close> (never a function here)
  hides the inherited method, the inherited \<open>valueOf\<close> returns the object itself, and the
  conversion throws. An array is joined with commas, \<open>null\<close> and \<open>undefined\<close> elements
  giving empty strings, and throws when the conversion of an element does.
\<close>

fun ToString :: "(jsnum \<Rightarrow> string) \<Rightarrow> jsval \<Rightarrow> string option" where
  "ToString n2s Undefined = Some ''undefined''"
| "ToString n2s Null = Some ''null''"
| "ToString n2s (Bool b) = Some (if b then ''true'' else ''false'')"
| "ToString n2s (Num n) = Some (n2s n)"
| "ToString n2s (Str s) = Some s"
| "ToString n2s (Arr xs) =
     map_option (join '','')
       (those (map (\<lambda>x. if x = Undefined \<or> x = Null then Some [] else ToString n2s x) xs))"
| "ToString n2s (Obj kvs) = (if has_key kvs ''toString'' then None else Some ''[object Object]'')"

text \<open>\<open>Number(v)\<close>, also the conversion of the left side of \<open>v < 1\<close>: an array or object
  is converted through its string, and throws when that conversion does.\<close>

definition ToNumber :: "(jsnum \<Rightarrow> string) \<Rightarrow> jsval \<Rightarrow> jsnum option" where
  "ToNumber n2s v =
     (case v of
        Undefined \<Rightarrow> Some NaN
      | Null \<Rightarrow> Some (Fin 0)
      | Bool b \<Rightarrow> Some (if b then Fin 1 else Fin 0)
      | Num n \<Rightarrow> Some n
      | Str s \<Rightarrow> Some (StringToNumber s)
      | _ \<Rightarrow> map_option StringToNumber (ToString n2s v))"

section \<open>proposalDraft.js\<close>

text \<open>Every function below returns \<open>None\<close> where the source throws a \<open>TypeError\<close>.\<close>

definition DEFAULT_RATES :: props where
  "DEFAULT_RATES =
     [(''baseRate'', Num (Fin 723)),
      (''additionalHoodRate'', Num (Fin 203)),
      (''additionalFanRate'', Num (Fin 203)),
      (''stdFilterRate'', Num (Fin 8)),
      (''nonStdFilterRate'', Num (Fin (27 / 2))),
      (''fuelSurcharge'', Num (Fin 46))]"

text \<open>\<open>DEFAULT_RATES.k\<close> as a number.\<close>

definition default_rate :: "string \<Rightarrow> jsnum" where
  "default_rate k = (case lookup DEFAULT_RATES k of Num n \<Rightarrow> n | _ \<Rightarrow> NaN)"

definition safeNum :: "(jsnum \<Rightarrow> string) \<Rightarrow> jsval \<Rightarrow> jsnum option" where
  "safeNum n2s v = do {
     x \<leftarrow> ToNumber n2s v;
     Some (if isFinite x then x else Fin 0)
   }"

definition orDefault :: "(jsnum \<Rightarrow> string) \<Rightarrow> jsval \<Rightarrow> jsnum \<Rightarrow> jsnum option" where
  "orDefault n2s val def = do {
     n \<leftarrow> ToNumber n2s val;
     Some (if isFinite n then n else def)
   }"

text \<open>The callback that \<open>normalizeAdditionalItems\<close> maps over the array (lines 23 to 28).\<close>

definition normalize_item :: "(jsnum \<Rightarrow> string) \<Rightarrow> jsval \<Rightarrow> jsval \<Rightarrow> jsval option" where
  "normalize_item n2s defaultFreq a = do {
     description \<leftarrow> ToString n2s (coalesce (get a ''description'') (Str []));
     qty \<leftarrow> safeNum n2s (get a ''qty'');
     rate \<leftarrow> orDefault n2s (get a ''rate'') (default_rate ''additionalHoodRate'');
     frequency \<leftarrow> ToString n2s (coalesce (get a ''frequency'') defaultFreq);
     Some (Obj [(''description'', Str description),
                (''qty'', Num qty),
                (''rate'', Num rate),
                (''frequency'', or_js (Str (trim frequency)) defaultFreq)])
   }"

text \<open>
  \<open>normalizeAdditionalItems\<close>. The first read \<open>draft?.cleaningFrequency\<close> is guarded,
  the next, \<open>draft.additionalItems\<close>, throws on \<open>null\<close> and \<open>undefined\<close>.
  \<open>Array.prototype.map\<close> calls the callback on the elements in order, so it throws when
  one call does.
\<close>

definition normalizeAdditionalItems :: "(jsnum \<Rightarrow> string) \<Rightarrow> jsval \<Rightarrow> jsval option" where
  "normalizeAdditionalItems n2s draft =
     (let defaultFreq = or_js (get draft ''cleaningFrequency'') (Str [])
      in if nullish draft then None
         else if isArray (get draft ''additionalItems'') \<and> 0 < length (elems (get draft ''additionalItems''))
         then map_option Arr
                (those (map (normalize_item n2s defaultFreq) (elems (get draft ''additionalItems''))))
         else do {
           let items = [];
           items \<leftarrow>
             (if \<not> nullish (get draft ''additionalHoodQty'') \<or> \<not> nullish (get draft ''additionalHoodRate'')
              then do {
                qty \<leftarrow> safeNum n2s (get draft ''additionalHoodQty'');
                rate \<leftarrow> orDefault n2s (get draft ''additionalHoodRate'') (default_rate ''additionalHoodRate'');
                Some (items @ [Obj
                  [(''description'', Str ''Additional Hood''),
                   (''qty'', Num qty),
                   (''rate'', Num rate),
                   (''frequency'',
                      or_js (or_js (get draft ''additionalFrequency'') (get draft ''cleaningFrequency''))
                        defaultFreq)]])
              }
              else Some items);
           items \<leftarrow>
             (if \<not> nullish (get draft ''additionalFanQty'') \<or> \<not> nullish (get draft ''additionalFanRate'')
              then do {
                qty \<leftarrow> safeNum n2s (get draft ''additionalFanQty'');
                rate \<leftarrow> orDefault n2s (get draft ''additionalFanRate'') (default_rate ''additionalFanRate'');
                Some (items @ [Obj
                  [(''description'', Str ''Additional Fan''),
                   (''qty'', Num qty),
                   (''rate'', Num rate),
                   (''frequency'',
                      or_js (or_js (get draft ''additionalFrequency'') (get draft ''cleaningFrequency''))
                        defaultFreq)]])
              }
              else Some items);
           if 0 < length items then Some (Arr items)
           else Some (Arr [Obj
             [(''description'', Str ''Additional Hood''),
              (''qty'', Num (Fin 0)),
              (''rate'', Num (default_rate ''additionalHoodRate'')),
              (''frequency'', defaultFreq)]])
         })"

text \<open>The callback that \<open>normalizeRepairs\<close> maps over the array (lines 59 to 62).\<close>

definition normalize_repair :: "(jsnum \<Rightarrow> string) \<Rightarrow> jsval \<Rightarrow> jsval option" where
  "normalize_repair n2s r = do {
     description \<leftarrow> ToString n2s (coalesce (get r ''description'') (Str []));
     amount \<leftarrow> safeNum n2s (get r ''amount'');
     Some (Obj [(''description'', Str description), (''amount'', Num amount)])
   }"

text \<open>\<open>normalizeRepairs\<close>; its first read, \<open>draft.repairs\<close>, is not guarded.\<close>

definition normalizeRepairs :: "(jsnum \<Rightarrow> string) \<Rightarrow> jsval \<Rightarrow> jsval option" where
  "normalizeRepairs n2s draft =
     (if nullish draft then None
      else if isArray (get draft ''repairs'') \<and> 0 < length (elems (get draft ''repairs''))
      then map_option Arr (those (map (normalize_repair n2s) (elems (get draft ''repairs''))))
      else if \<not> nullish (get draft ''repairDescription'') \<or> \<not> nullish (get draft ''repairRate'')
      then do {
        description \<leftarrow> ToString n2s (coalesce (get draft ''repairDescription'') (Str []));
        amount \<leftarrow> safeNum n2s (get draft ''repairRate'');
        Some (Arr [Obj [(''description'', Str description), (''amount'', Num amount)]])
      }
      else Some (Arr [Obj [(''description'', Str []), (''amount'', Num (Fin 0))]]))"

text \<open>One statement \<open>if (d.k == null || d.k === "") d.k = DEFAULT_RATES.k;\<close> of
  \<open>applyDefaults\<close>.\<close>

definition fill_default :: "props \<Rightarrow> string \<Rightarrow> props" where
  "fill_default d k =
     (if nullish (lookup d k) \<or> lookup d k = Str [] then put d k (lookup DEFAULT_RATES k) else d)"

text \<open>One statement \<open>if (d.k == null || d.k < 1) d.k = 1;\<close>: the comparison is not reached
  when \<open>d.k\<close> is \<open>null\<close> or \<open>undefined\<close>; otherwise it converts \<open>d.k\<close> to a number, and is
  false on \<open>NaN\<close>.\<close>

definition clamp_initial :: "(jsnum \<Rightarrow> string) \<Rightarrow> props \<Rightarrow> string \<Rightarrow> props option" where
  "clamp_initial n2s d k =
     (if nullish (lookup d k) then Some (put d k (Num (Fin 1)))
      else do {
        n \<leftarrow> ToNumber n2s (lookup d k);
        Some (if lt n (Fin 1) then put d k (Num (Fin 1)) else d)
      })"

definition applyDefaults :: "(jsnum \<Rightarrow> string) \<Rightarrow> jsval \<Rightarrow> jsval option" where
  "applyDefaults n2s draft =
     (if \<not> truthy draft \<or> typeof draft \<noteq> ''object'' then Some (Obj (entries (Obj DEFAULT_RATES)))
      else do {
        let d = entries draft;
        let d = fill_default d ''baseRate'';
        let d = fill_default d ''additionalHoodRate'';
        let d = fill_default d ''additionalFanRate'';
        let d = fill_default d ''stdFilterRate'';
        let d = fill_default d ''nonStdFilterRate'';
        let d = fill_default d ''fuelSurcharge'';
        repairs \<leftarrow> normalizeRepairs n2s (Obj d);
        let d = put d ''repairs'' repairs;
        items \<leftarrow> normalizeAdditionalItems n2s (Obj d);
        let d = put d ''additionalItems'' items;
        d \<leftarrow> clamp_initial n2s d ''initialHoodQty'';
        d \<leftarrow> clamp_initial n2s d ''initialFanQty'';
        Some (Obj d)
      })"

text \<open>\<open>mergeDraft\<close>: the loop over \<open>Object.entries(incoming)\<close> is a left fold.\<close>

definition mergeDraft :: "jsval \<Rightarrow> jsval \<Rightarrow> jsval" where
  "mergeDraft prev incoming =
     (let out = entries (or_js prev (Obj []))
      in if \<not> truthy incoming \<or> typeof incoming \<noteq> ''object'' then Obj out
         else Obj (foldl (\<lambda>out (k, v). if v \<noteq> Undefined then put out k v else out) out (entries incoming)))"

record totals =
  baseRate :: jsnum
  addHood :: jsnum
  addFan :: jsnum
  mainServiceSubtotal :: jsnum
  repairsSubtotal :: jsnum
  filtersSubtotal :: jsnum
  fuelSubtotal :: jsnum
  totalPerService :: jsnum

text \<open>
  The two \<open>reduce\<close> calls of \<open>computeTotals\<close>. The callbacks read \<open>a.qty\<close>,
  \<open>a.rate\<close> and \<open>r.amount\<close> without a guard, so an element that is \<open>null\<close> or
  \<open>undefined\<close> throws.
\<close>

fun reduce_items :: "(jsnum \<Rightarrow> string) \<Rightarrow> jsnum \<Rightarrow> jsval list \<Rightarrow> jsnum option" where
  "reduce_items n2s acc [] = Some acc"
| "reduce_items n2s acc (a # as) =
     (if nullish a then None
      else do {
        qty \<leftarrow> safeNum n2s (get a ''qty'');
        rate \<leftarrow> orDefault n2s (get a ''rate'') (default_rate ''additionalHoodRate'');
        reduce_items n2s (add acc (mul qty rate)) as
      })"

fun reduce_repairs :: "(jsnum \<Rightarrow> string) \<Rightarrow> jsnum \<Rightarrow> jsval list \<Rightarrow> jsnum option" where
  "reduce_repairs n2s acc [] = Some acc"
| "reduce_repairs n2s acc (r # rs) =
     (if nullish r then None
      else do {
        amount \<leftarrow> safeNum n2s (get r ''amount'');
        reduce_repairs n2s (add acc amount) rs
      })"

text \<open>\<open>computeTotals\<close>. The four rates are read with \<open>draft?.\<close>; \<open>draft.additionalItems\<close>
  is the first unguarded read.\<close>

definition computeTotals :: "(jsnum \<Rightarrow> string) \<Rightarrow> jsval \<Rightarrow> totals option" where
  "computeTotals n2s draft = do {
     baseRate \<leftarrow> orDefault n2s (get draft ''baseRate'') (default_rate ''baseRate'');
     stdRate \<leftarrow> orDefault n2s (get draft ''stdFilterRate'') (default_rate ''stdFilterRate'');
     nonStdRate \<leftarrow> orDefault n2s (get draft ''nonStdFilterRate'') (default_rate ''nonStdFilterRate'');
     fuelRate \<leftarrow> orDefault n2s (get draft ''fuelSurcharge'') (default_rate ''fuelSurcharge'');
     if nullish draft then None
     else do {
       additionalItems \<leftarrow>
         (if isArray (get draft ''additionalItems'') then Some (get draft ''additionalItems'')
          else normalizeAdditionalItems n2s (or_js draft (Obj [])));
       additionalSubtotal \<leftarrow> reduce_items n2s (Fin 0) (elems additionalItems);
       let mainServiceSubtotal = add baseRate additionalSubtotal;
       repairs \<leftarrow>
         (if isArray (get draft ''repairs'') then Some (get draft ''repairs'')
          else normalizeRepairs n2s (or_js draft (Obj [])));
       repairsSubtotal \<leftarrow> reduce_repairs n2s (Fin 0) (elems repairs);
       stdQty \<leftarrow> safeNum n2s (get draft ''stdFilterQty'');
       nonStdQty \<leftarrow> safeNum n2s (get draft ''nonStdFilterQty'');
       let filtersSubtotal = add (mul stdQty stdRate) (mul nonStdQty nonStdRate);
       let fuelSubtotal = fuelRate;
       let totalPerService =
             add (add (add mainServiceSubtotal repairsSubtotal) filtersSubtotal) fuelSubtotal;
       Some \<lparr>baseRate = baseRate,
             addHood = additionalSubtotal,
             addFan = Fin 0,
             mainServiceSubtotal = mainServiceSubtotal,
             repairsSubtotal = repairsSubtotal,
             filtersSubtotal = filtersSubtotal,
             fuelSubtotal = fuelSubtotal,
             totalPerService = totalPerService\<rparr>
     }
   }"

section \<open>App.jsx: the inspection form\<close>

text \<open>The test \<open>String(x.description || "").trim().toLowerCase() === name\<close>.\<close>

definition named :: "(jsnum \<Rightarrow> string) \<Rightarrow> string \<Rightarrow> jsval \<Rightarrow> bool option" where
  "named n2s name x = do {
     s \<leftarrow> ToString n2s (or_js (get x ''description'') (Str []));
     Some (toLowerCase (trim s) = name)
   }"

text \<open>\<open>Array.prototype.findIndex\<close>: the index of the first element that passes the test,
  \<open>-1\<close> when there is none; \<open>None\<close> when the test throws first.\<close>

fun findIndex :: "('a \<Rightarrow> bool option) \<Rightarrow> 'a list \<Rightarrow> int option" where
  "findIndex P [] = Some (- 1)"
| "findIndex P (x # xs) = do {
     b \<leftarrow> P x;
     if b then Some 0
     else do {
       i \<leftarrow> findIndex P xs;
       Some (if 0 \<le> i then i + 1 else i)
     }
   }"

text \<open>\<open>Array.prototype.find\<close>, \<open>undefined\<close> when no element passes the test.\<close>

fun find_js :: "(jsval \<Rightarrow> bool option) \<Rightarrow> jsval list \<Rightarrow> jsval option" where
  "find_js P [] = Some Undefined"
| "find_js P (x # xs) = do {
     b \<leftarrow> P x;
     if b then Some x else find_js P xs
   }"

text \<open>\<open>Number(v) || 0\<close>.\<close>

definition number_or_zero :: "(jsnum \<Rightarrow> string) \<Rightarrow> jsval \<Rightarrow> jsnum option" where
  "number_or_zero n2s v = do {
     n \<leftarrow> ToNumber n2s v;
     Some (if truthy (Num n) then n else Fin 0)
   }"

text \<open>The updater passed to \<open>setAdditionalItems\<close> by the effect (lines 245 to 262): both
  indexes are found before either entry is replaced by \<open>{ ...items[idx], qty: want }\<close>.\<close>

definition derive_items ::
  "(jsnum \<Rightarrow> string) \<Rightarrow> jsnum \<Rightarrow> jsnum \<Rightarrow> jsval \<Rightarrow> jsval \<Rightarrow> jsval option" where
  "derive_items n2s hoods fans cleaningFrequency prev = do {
     normalized \<leftarrow> normalizeAdditionalItems n2s
       (Obj [(''additionalItems'', prev), (''cleaningFrequency'', cleaningFrequency)]);
     let items = elems normalized;
     let wantHood = Math_max (sub hoods (Fin 1)) (Fin 0);
     let wantFan = Math_max (sub fans (Fin 1)) (Fin 0);
     idxHood \<leftarrow> findIndex (named n2s ''additional hood'') items;
     idxFan \<leftarrow> findIndex (named n2s ''additional fan'') items;
     let items = (if 0 \<le> idxHood
                  then items[nat idxHood := Obj (put (entries (items ! nat idxHood)) ''qty'' (Num wantHood))]
                  else items);
     let items = (if 0 \<le> idxFan
                  then items[nat idxFan := Obj (put (entries (items ! nat idxFan)) ''qty'' (Num wantFan))]
                  else items);
     Some (Arr items)
   }"

text \<open>
  The state variables of the form that the derived-quantity effect and the storage listener
  read or write, and those whose update can stop the listener. The equipment counts are
  numbers: they are set from \<open>Math.max(1, toInt(\<dots>))\<close>, \<open>toInt(\<dots>)\<close>,
  \<open>1 + (Number(\<dots>) || 0)\<close> and \<open>Number(\<dots>) || 0\<close>.
\<close>

record form_state =
  hoods :: jsnum
  fans :: jsnum
  filters :: jsnum
  cleaningFrequency :: jsval
  additionalItems :: jsval
  repairs :: jsval
  stdFilterQty :: jsval
  filterExchangeQty :: jsval
  pricingTouched :: bool

text \<open>The initial values given to \<open>useState\<close>.\<close>

definition initial_state :: form_state where
  "initial_state =
     \<lparr>hoods = Fin 1, fans = Fin 1, filters = Fin 0, cleaningFrequency = Str [],
      additionalItems = Arr
        [Obj [(''description'', Str ''Additional Hood''), (''qty'', Num (Fin 0)),
              (''rate'', Num (default_rate ''additionalHoodRate'')), (''frequency'', Str [])],
         Obj [(''description'', Str ''Additional Fan''), (''qty'', Num (Fin 0)),
              (''rate'', Num (default_rate ''additionalFanRate'')), (''frequency'', Str [])]],
      repairs = Arr [Obj [(''description'', Str []), (''amount'', Num (Fin 0))]],
      stdFilterQty = Num (Fin 0), filterExchangeQty = Num (Fin 0), pricingTouched = False\<rparr>"

text \<open>
  The effect with dependencies \<open>[hoods, fans, filters, pricingTouched,
  cleaningFrequency]\<close> (lines 244 to 269). \<open>None\<close>: the updater throws, and the form
  fails to render.
\<close>

definition count_effect :: "(jsnum \<Rightarrow> string) \<Rightarrow> form_state \<Rightarrow> form_state option" where
  "count_effect n2s s = do {
     items \<leftarrow> derive_items n2s (hoods s) (fans s) (cleaningFrequency s) (additionalItems s);
     let s = s\<lparr>additionalItems := items\<rparr>;
     Some (if \<not> pricingTouched s
           then s\<lparr>stdFilterQty := Num (filters s), filterExchangeQty := Num (filters s)\<rparr>
           else s)
   }"

text \<open>
  The storage listener \<open>onStorage\<close> (lines 337 to 421) for an event on the draft key,
  \<open>incoming\<close> being the parsed new value, restricted to the state variables above. A state
  setter that was called before a statement throws has taken effect, so the listener is a
  sequence of steps, each giving the state so far and whether the listener goes on.
  The first step is the part on the additional items (lines 356 to 385).
\<close>

definition storage_items :: "(jsnum \<Rightarrow> string) \<Rightarrow> jsval \<Rightarrow> form_state \<Rightarrow> form_state \<times> bool" where
  "storage_items n2s incoming s =
     (if get incoming ''additionalItems'' \<noteq> Undefined \<and> isArray (get incoming ''additionalItems'')
      then
        (case normalizeAdditionalItems n2s
                (Obj [(''additionalItems'', get incoming ''additionalItems''),
                      (''cleaningFrequency'', get incoming ''cleaningFrequency'')]) of
           None \<Rightarrow> (s, False)
         | Some normalized \<Rightarrow>
             (let s = s\<lparr>additionalItems := normalized\<rparr>
              in case do {
                   hood \<leftarrow> find_js (named n2s ''additional hood'') (elems normalized);
                   fan \<leftarrow> find_js (named n2s ''additional fan'') (elems normalized);
                   qtyHood \<leftarrow> number_or_zero n2s (get hood ''qty'');
                   qtyFan \<leftarrow> number_or_zero n2s (get fan ''qty'');
                   Some (qtyHood, qtyFan)
                 } of
                 None \<Rightarrow> (s, False)
               | Some (qtyHood, qtyFan) \<Rightarrow>
                   (s\<lparr>hoods := add (Fin 1) qtyHood, fans := add (Fin 1) qtyFan\<rparr>, True)))
      else if \<not> nullish (get incoming ''additionalHoodQty'') \<or> \<not> nullish (get incoming ''additionalFanQty'')
            \<or> \<not> nullish (get incoming ''additionalHoodRate'') \<or> \<not> nullish (get incoming ''additionalFanRate'')
      then
        (case normalizeAdditionalItems n2s incoming of
           None \<Rightarrow> (s, False)
         | Some normalized \<Rightarrow>
             (let s = s\<lparr>additionalItems := normalized\<rparr>
              in case do {
                   addH \<leftarrow> number_or_zero n2s (get incoming ''additionalHoodQty'');
                   addF \<leftarrow> number_or_zero n2s (get incoming ''additionalFanQty'');
                   Some (addH, addF)
                 } of
                 None \<Rightarrow> (s, False)
               | Some (addH, addF) \<Rightarrow>
                   (s\<lparr>hoods := add (Fin 1) addH, fans := add (Fin 1) addF\<rparr>, True)))
      else (s, True))"

text \<open>The part on the repairs (lines 387 to 399).\<close>

definition storage_repairs :: "(jsnum \<Rightarrow> string) \<Rightarrow> jsval \<Rightarrow> form_state \<Rightarrow> form_state \<times> bool" where
  "storage_repairs n2s incoming s =
     (if get incoming ''repairs'' \<noteq> Undefined \<and> isArray (get incoming ''repairs'')
      then (s\<lparr>repairs := get incoming ''repairs''\<rparr>, True)
      else if get incoming ''repairDescription'' \<noteq> Undefined \<or> get incoming ''repairRate'' \<noteq> Undefined
      then
        (case normalizeRepairs n2s
                (Obj [(''repairDescription'', get incoming ''repairDescription''),
                      (''repairRate'', get incoming ''repairRate'')]) of
           None \<Rightarrow> (s, False)
         | Some r \<Rightarrow> (s\<lparr>repairs := r\<rparr>, True))
      else (s, True))"

text \<open>The listener. Its first statement reads \<open>incoming.restaurantName\<close> and throws on
  \<open>null\<close>, before any setter.\<close>

definition onStorage :: "(jsnum \<Rightarrow> string) \<Rightarrow> jsval \<Rightarrow> form_state \<Rightarrow> form_state" where
  "onStorage n2s incoming s =
     (if nullish incoming then s
      else
        let s = (if get incoming ''cleaningFrequency'' \<noteq> Undefined
                 then s\<lparr>cleaningFrequency := get incoming ''cleaningFrequency''\<rparr> else s)
        in case (if get incoming ''filters'' \<noteq> Undefined
                 then number_or_zero n2s (get incoming ''filters'') else Some (filters s)) of
             None \<Rightarrow> s
           | Some n \<Rightarrow>
               (case storage_items n2s incoming (s\<lparr>filters := n\<rparr>) of
                  (s, False) \<Rightarrow> s
                | (s, True) \<Rightarrow>
                    (case storage_repairs n2s incoming s of
                       (s, False) \<Rightarrow> s
                     | (s, True) \<Rightarrow>
                         (let s = (if get incoming ''stdFilterQty'' \<noteq> Undefined
                                   then s\<lparr>stdFilterQty := get incoming ''stdFilterQty''\<rparr> else s);
                              s = (if get incoming ''filterExchangeQty'' \<noteq> Undefined
                                   then s\<lparr>filterExchangeQty := get incoming ''filterExchangeQty''\<rparr> else s)
                          in s\<lparr>pricingTouched := True\<rparr>))))"

text \<open>
  The events that change the dependencies of the effect: a storage event with its parsed
  value, and the three count inputs with the integer that \<open>toInt\<close> returns. After a
  handler, the effect runs when one of its dependencies has changed; it also runs once when
  the form is mounted. React compares dependencies with \<open>Object.is\<close>: numbers, strings and
  booleans by value, an object or array by identity, and the cleaning frequency that a
  storage event assigns is freshly parsed, so it differs from every earlier value when it
  is an object or an array.
\<close>

datatype event = Storage jsval | SetHoods int | SetFans int | SetFilters int

definition handle :: "(jsnum \<Rightarrow> string) \<Rightarrow> event \<Rightarrow> form_state \<Rightarrow> form_state" where
  "handle n2s ev s =
     (case ev of
        Storage incoming \<Rightarrow> onStorage n2s incoming s
      | SetHoods k \<Rightarrow> s\<lparr>hoods := Math_max (Fin 1) (Fin (of_int k))\<rparr>
      | SetFans k \<Rightarrow> s\<lparr>fans := Math_max (Fin 1) (Fin (of_int k))\<rparr>
      | SetFilters k \<Rightarrow> s\<lparr>filters := Fin (of_int k)\<rparr>)"

definition deps :: "form_state \<Rightarrow> jsnum \<times> jsnum \<times> jsnum \<times> bool \<times> jsval" where
  "deps s = (hoods s, fans s, filters s, pricingTouched s, cleaningFrequency s)"

definition fresh_frequency :: "event \<Rightarrow> bool" where
  "fresh_frequency ev =
     (case ev of
        Storage incoming \<Rightarrow> \<not> nullish incoming \<and> is_object (get incoming ''cleaningFrequency'')
      | _ \<Rightarrow> False)"

definition fire :: "(jsnum \<Rightarrow> string) \<Rightarrow> event \<Rightarrow> form_state \<Rightarrow> form_state option" where
  "fire n2s ev s =
     (let s' = handle n2s ev s
      in if deps s' \<noteq> deps s \<or> fresh_frequency ev then count_effect n2s s' else Some s')"

fun run :: "(jsnum \<Rightarrow> string) \<Rightarrow> event list \<Rightarrow> form_state \<Rightarrow> form_state option" where
  "run n2s [] s = Some s"
| "run n2s (ev # evs) s = (case fire n2s ev s of None \<Rightarrow> None | Some s' \<Rightarrow> run n2s evs s')"

definition mounted :: "(jsnum \<Rightarrow> string) \<Rightarrow> form_state option" where
  "mounted n2s = count_effect n2s initial_state"

text \<open>The quantity of the first additional item with a given lower-case name.\<close>

definition item_qty :: "(jsnum \<Rightarrow> string) \<Rightarrow> string \<Rightarrow> jsval \<Rightarrow> jsval option" where
  "item_qty n2s name items =
     map_option (\<lambda>x. get x ''qty'') (find_js (named n2s name) (elems items))"

section \<open>Inputs and predicates of the properties\<close>

text \<open>The draft of the totals scenario:
  \<open>{baseRate:723, additionalItems:[{qty:2,rate:203}], stdFilterQty:4, stdFilterRate:8,
  nonStdFilterQty:0, nonStdFilterRate:13.5, fuelSurcharge:46, repairs:[]}\<close>.\<close>

definition scenario_draft :: jsval where
  "scenario_draft =
     Obj [(''baseRate'', Num (Fin 723)),
          (''additionalItems'', Arr [Obj [(''qty'', Num (Fin 2)), (''rate'', Num (Fin 203))]]),
          (''stdFilterQty'', Num (Fin 4)),
          (''stdFilterRate'', Num (Fin 8)),
          (''nonStdFilterQty'', Num (Fin 0)),
          (''nonStdFilterRate'', Num (Fin (27 / 2))),
          (''fuelSurcharge'', Num (Fin 46)),
          (''repairs'', Arr [])]"

text \<open>The legacy-shaped draft
  \<open>{additionalHoodQty:1, additionalHoodRate:200, additionalFanQty:0}\<close>.\<close>

definition legacy_draft :: jsval where
  "legacy_draft =
     Obj [(''additionalHoodQty'', Num (Fin 1)),
          (''additionalHoodRate'', Num (Fin 200)),
          (''additionalFanQty'', Num (Fin 0))]"

text \<open>A number formatting function for closed instances of the properties; any function
  will do, since they hold for all of them.\<close>

definition n2s0 :: "jsnum \<Rightarrow> string" where
  "n2s0 n = ''0''"

text \<open>The six rate fields that \<open>applyDefaults\<close> fills, in the order of \<open>DEFAULT_RATES\<close>.\<close>

definition rate_fields :: "string list" where
  "rate_fields = [''baseRate'', ''additionalHoodRate'', ''additionalFanRate'', ''stdFilterRate'',
     ''nonStdFilterRate'', ''fuelSurcharge'']"

text \<open>The additional-items subtotal as the specification words it: the sum over all
  additional items of quantity times rate, accumulated from left to right, with the
  coercions of the totals engine; \<open>None\<close> when a coercion throws.\<close>

definition additionalSubtotal :: "(jsnum \<Rightarrow> string) \<Rightarrow> jsval list \<Rightarrow> jsnum option" where
  "additionalSubtotal n2s items =
     foldl (\<lambda>s a. do {
              acc \<leftarrow> s;
              qty \<leftarrow> safeNum n2s (get a ''qty'');
              rate \<leftarrow> orDefault n2s (get a ''rate'') (default_rate ''additionalHoodRate'');
              Some (add acc (mul qty rate))
            })
       (Some (Fin 0)) items"

text \<open>A draft with one hood entry (2 at 203) and one fan entry (3 at 100).\<close>

definition hood_fan_draft :: jsval where
  "hood_fan_draft =
     Obj [(''additionalItems'', Arr
       [Obj [(''description'', Str ''Additional Hood''), (''qty'', Num (Fin 2)), (''rate'', Num (Fin 203))],
        Obj [(''description'', Str ''Additional Fan''), (''qty'', Num (Fin 3)), (''rate'', Num (Fin 100))]])]"

text \<open>The draft after the six rate statements of \<open>applyDefaults\<close>.\<close>

definition fill_rates :: "props \<Rightarrow> props" where
  "fill_rates d = foldl fill_default d rate_fields"


text \<open>The shape of a normalized additional item.\<close>

definition is_item :: "jsval \<Rightarrow> bool" where
  "is_item x = (\<exists>ds q r f. x =
     Obj [(''description'', Str ds), (''qty'', Num (Fin q)), (''rate'', Num (Fin r)), (''frequency'', f)])"

text \<open>The state of the mounted form after a storage event whose new value is \<open>{}\<close>.\<close>

definition touched_state :: form_state where
  "touched_state = initial_state\<lparr>pricingTouched := True\<rparr>"

text \<open>A frequency value that is falsy, or a string without leading or trailing white
  space.\<close>

definition plain_frequency :: "jsval \<Rightarrow> bool" where
  "plain_frequency v = (case v of Str s \<Rightarrow> trim s = s | _ \<Rightarrow> \<not> truthy v)"

text \<open>A legacy-shaped draft with a cleaning frequency, and a draft whose cleaning frequency
  has white space around it and whose one additional item has an empty frequency.\<close>

definition monthly_draft :: jsval where
  "monthly_draft =
     Obj [(''cleaningFrequency'', Str ''Monthly''), (''additionalHoodQty'', Num (Fin 1)),
          (''baseRate'', Str ''0''), (''repairs'', Arr [Obj [(''amount'', Str ''12'')]])]"

definition untrimmed_draft :: props where
  "untrimmed_draft =
     [(''cleaningFrequency'', Str '' Monthly ''),
      (''additionalItems'', Arr [Obj [(''frequency'', Str [])]])]"

text \<open>
  A value on which \<open>String\<close> and \<open>Number\<close> cannot throw, nor on any value inside it: no
  object in it has an own property named \<open>toString\<close>. The drafts that the program itself
  writes are of this kind.
\<close>

fun convertible :: "jsval \<Rightarrow> bool" where
  "convertible (Arr xs) = (\<forall>x \<in> set xs. convertible x)"
| "convertible (Obj kvs) = (\<not> has_key kvs ''toString'' \<and> (\<forall>v \<in> set (map snd kvs). convertible v))"
| "convertible v = True"

text \<open>The value \<open>{toString: 1}\<close>, which \<open>JSON.parse\<close> can return, and drafts that hold
  it: as the description of a repair, as the description of an additional item, and as
  \<open>initialHoodQty\<close>.\<close>

definition toString_object :: jsval where
  "toString_object = Obj [(''toString'', Num (Fin 1))]"

definition toString_repair_draft :: jsval where
  "toString_repair_draft = Obj [(''repairs'', Arr [Obj [(''description'', toString_object)]])]"

definition toString_item_draft :: jsval where
  "toString_item_draft = Obj [(''additionalItems'', Arr [Obj [(''description'', toString_object)]])]"

text \<open>The copy of the default rates after \<open>applyDefaults\<close>: the two additional rates
  are legacy flat fields, so the additional items are a hood and a fan entry.\<close>

definition defaults_completed :: props where
  "defaults_completed =
     DEFAULT_RATES @
     [(''repairs'', Arr [Obj [(''description'', Str []), (''amount'', Num (Fin 0))]]),
      (''additionalItems'', Arr
         [Obj [(''description'', Str ''Additional Hood''), (''qty'', Num (Fin 0)),
               (''rate'', Num (Fin 203)), (''frequency'', Str [])],
          Obj [(''description'', Str ''Additional Fan''), (''qty'', Num (Fin 0)),
               (''rate'', Num (Fin 203)), (''frequency'', Str [])]]),
      (''initialHoodQty'', Num (Fin 1)),
      (''initialFanQty'', Num (Fin 1))]"

text \<open>The draft with the untrimmed cleaning frequency after one and after two applications
  of \<open>applyDefaults\<close>: they differ in the frequency of the item.\<close>

definition untrimmed_once :: props where
  "untrimmed_once =
     [(''cleaningFrequency'', Str '' Monthly ''),
      (''additionalItems'', Arr
         [Obj [(''description'', Str []), (''qty'', Num (Fin 0)), (''rate'', Num (Fin 203)),
               (''frequency'', Str '' Monthly '')]]),
      (''baseRate'', Num (Fin 723)),
      (''additionalHoodRate'', Num (Fin 203)),
      (''additionalFanRate'', Num (Fin 203)),
      (''stdFilterRate'', Num (Fin 8)),
      (''nonStdFilterRate'', Num (Fin (27 / 2))),
      (''fuelSurcharge'', Num (Fin 46)),
      (''repairs'', Arr [Obj [(''description'', Str []), (''amount'', Num (Fin 0))]]),
      (''initialHoodQty'', Num (Fin 1)),
      (''initialFanQty'', Num (Fin 1))]"

definition untrimmed_twice :: props where
  "untrimmed_twice =
     [(''cleaningFrequency'', Str '' Monthly ''),
      (''additionalItems'', Arr
         [Obj [(''description'', Str []), (''qty'', Num (Fin 0)), (''rate'', Num (Fin 203)),
               (''frequency'', Str ''Monthly'')]]),
      (''baseRate'', Num (Fin 723)),
      (''additionalHoodRate'', Num (Fin 203)),
      (''additionalFanRate'', Num (Fin 203)),
      (''stdFilterRate'', Num (Fin 8)),
      (''nonStdFilterRate'', Num (Fin (27 / 2))),
      (''fuelSurcharge'', Num (Fin 46)),
      (''repairs'', Arr [Obj [(''description'', Str []), (''amount'', Num (Fin 0))]]),
      (''initialHoodQty'', Num (Fin 1)),
      (''initialFanQty'', Num (Fin 1))]"



text \<open>
  The two arrays that \<open>computeTotals\<close> sums over: \<open>draft.additionalItems\<close> and
  \<open>draft.repairs\<close> when they are arrays, the normalized ones otherwise.
\<close>

definition totals_items :: "(jsnum \<Rightarrow> string) \<Rightarrow> jsval \<Rightarrow> jsval option" where
  "totals_items n2s draft =
     (if isArray (get draft ''additionalItems'') then Some (get draft ''additionalItems'')
      else normalizeAdditionalItems n2s (or_js draft (Obj [])))"

definition totals_repairs :: "(jsnum \<Rightarrow> string) \<Rightarrow> jsval \<Rightarrow> jsval option" where
  "totals_repairs n2s draft =
     (if isArray (get draft ''repairs'') then Some (get draft ''repairs'')
      else normalizeRepairs n2s (or_js draft (Obj [])))"

text \<open>
  A range of operands in which no product and no sum of \<open>computeTotals\<close> overflows: every
  rate, quantity and amount that converts to a finite number is at most \<open>2 ^ 480\<close> in
  magnitude, and each array has fewer than \<open>2 ^ 32\<close> elements, as every JavaScript array
  has. A product is then at most \<open>2 ^ 960\<close>, and a sum at most a multiple of it.
\<close>

definition operand_bound :: rat where
  "operand_bound = 2 ^ 480"

definition sum_unit :: rat where
  "sum_unit = 2 ^ 960"

definition mag_le :: "jsnum \<Rightarrow> rat \<Rightarrow> bool" where
  "mag_le x b = (case x of Fin v \<Rightarrow> \<bar>v\<bar> \<le> b | _ \<Rightarrow> False)"

definition in_range :: "(jsnum \<Rightarrow> string) \<Rightarrow> jsval \<Rightarrow> bool" where
  "in_range n2s v = (case ToNumber n2s v of Some (Fin x) \<Rightarrow> \<bar>x\<bar> \<le> operand_bound | _ \<Rightarrow> True)"

definition operands_in_range :: "(jsnum \<Rightarrow> string) \<Rightarrow> jsval \<Rightarrow> bool" where
  "operands_in_range n2s d =
     (in_range n2s (get d ''baseRate'') \<and> in_range n2s (get d ''stdFilterRate'')
      \<and> in_range n2s (get d ''nonStdFilterRate'') \<and> in_range n2s (get d ''fuelSurcharge'')
      \<and> in_range n2s (get d ''stdFilterQty'') \<and> in_range n2s (get d ''nonStdFilterQty'')
      \<and> (case totals_items n2s d of
            None \<Rightarrow> True
          | Some items \<Rightarrow>
              length (elems items) < 2 ^ 32
              \<and> (\<forall>a \<in> set (elems items). in_range n2s (get a ''qty'') \<and> in_range n2s (get a ''rate'')))
      \<and> (case totals_repairs n2s d of
            None \<Rightarrow> True
          | Some rs \<Rightarrow>
              length (elems rs) < 2 ^ 32
              \<and> (\<forall>r \<in> set (elems rs). in_range n2s (get r ''amount''))))"

definition all_finite :: "totals \<Rightarrow> bool" where
  "all_finite t =
     (isFinite (baseRate t) \<and> isFinite (addHood t) \<and> isFinite (addFan t)
      \<and> isFinite (mainServiceSubtotal t) \<and> isFinite (repairsSubtotal t)
      \<and> isFinite (filtersSubtotal t) \<and> isFinite (fuelSubtotal t)
      \<and> isFinite (totalPerService t))"

text \<open>A draft with two additional items whose products overflow, to \<open>Infinity\<close> and to
  \<open>-Infinity\<close>: \<open>{additionalItems: [{qty: 2^600, rate: 2^600}, {qty: -2^600, rate: 2^600}]}\<close>.\<close>

definition huge :: rat where
  "huge = 2 ^ 600"

definition overflow_draft :: jsval where
  "overflow_draft =
     Obj [(''additionalItems'', Arr
       [Obj [(''qty'', Num (Fin huge)), (''rate'', Num (Fin huge))],
        Obj [(''qty'', Num (Fin (- huge))), (''rate'', Num (Fin huge))]])]"

section \<open>Rounding to a double\<close>

lemma round_half_even_of_int: "round_half_even (of_int m) = m"
  by (simp add: round_half_even_def)

lemma round_half_even_floor: "\<lfloor>q\<rfloor> \<le> round_half_even q" "round_half_even q \<le> \<lfloor>q\<rfloor> + 1"
  by (simp_all add: round_half_even_def Let_def)

lemma round_half_even_ge: "of_int a \<le> q \<Longrightarrow> a \<le> round_half_even q"
proof -
  assume "of_int a \<le> q"
  then have "a \<le> \<lfloor>q\<rfloor>" by (simp add: le_floor_iff)
  with round_half_even_floor(1) [of q] show ?thesis by linarith
qed

lemma round_half_even_le: "q \<le> of_int b \<Longrightarrow> round_half_even q \<le> b"
proof (cases "q = of_int \<lfloor>q\<rfloor>")
  case True
  assume "q \<le> of_int b"
  with True have "\<lfloor>q\<rfloor> \<le> b" by (metis of_int_le_iff)
  moreover from True have "round_half_even q = \<lfloor>q\<rfloor>"
    by (metis round_half_even_of_int)
  ultimately show ?thesis by simp
next
  case False
  assume le: "q \<le> of_int b"
  have "of_int \<lfloor>q\<rfloor> < q"
    by (metis False of_int_floor_le order_less_le)
  with le have "(of_int \<lfloor>q\<rfloor> :: rat) < of_int b" by linarith
  then have "\<lfloor>q\<rfloor> < b" by simp
  with round_half_even_floor(2) [of q] show ?thesis by linarith
qed

lemma floor_log2_lower: "0 < r \<Longrightarrow> 2 powi (floor_log2 r) \<le> r"
proof (cases "1 \<le> r")
  case True
  then have pos: "0 < \<lfloor>r\<rfloor>" by simp
  then have b1: "1 \<le> bitlen \<lfloor>r\<rfloor>" by (simp add: bitlen_ge_iff_power)
  from bitlen_bounds [OF pos] have "2 ^ nat (bitlen \<lfloor>r\<rfloor> - 1) \<le> \<lfloor>r\<rfloor>" by simp
  then have "(of_int (2 ^ nat (bitlen \<lfloor>r\<rfloor> - 1)) :: rat) \<le> of_int \<lfloor>r\<rfloor>"
    by (simp only: of_int_le_iff)
  also have "\<dots> \<le> r" by simp
  finally have "(2::rat) ^ nat (bitlen \<lfloor>r\<rfloor> - 1) \<le> r" by simp
  moreover have "(2::rat) powi (bitlen \<lfloor>r\<rfloor> - 1) = 2 ^ nat (bitlen \<lfloor>r\<rfloor> - 1)"
    using b1 by (simp add: power_int_nonneg_exp)
  ultimately show ?thesis using True by (simp add: floor_log2_def)
next
  case False
  assume r: "0 < r"
  define n where "n = \<lceil>1 / r\<rceil> - 1"
  from False r have "1 < 1 / r" by simp
  then have "1 < \<lceil>1 / r\<rceil>" by (simp add: less_ceiling_iff)
  then have pos: "0 < n" by (simp add: n_def)
  from bitlen_bounds [OF pos] have "n < 2 ^ nat (bitlen n)" by simp
  then have "n + 1 \<le> 2 ^ nat (bitlen n)" by simp
  then have "(of_int (n + 1) :: rat) \<le> of_int (2 ^ nat (bitlen n))"
    by (simp only: of_int_le_iff)
  moreover have "1 / r \<le> of_int (n + 1)" by (simp add: n_def)
  ultimately have "1 / r \<le> 2 ^ nat (bitlen n)" by simp
  then have "1 \<le> 2 ^ nat (bitlen n) * r" using r by (simp add: field_simps)
  then have "1 / 2 ^ nat (bitlen n) \<le> r" by (simp add: field_simps)
  moreover have "(2::rat) powi (- bitlen n) = 1 / 2 ^ nat (bitlen n)"
    using bitlen_nonneg [of n] by (simp add: power_int_minus_divide power_int_nonneg_exp)
  ultimately show ?thesis using False by (simp add: floor_log2_def n_def)
qed

lemma floor_log2_upper: "0 < r \<Longrightarrow> r < 2 powi (floor_log2 r + 1)"
proof (cases "1 \<le> r")
  case True
  then have pos: "0 < \<lfloor>r\<rfloor>" by simp
  from bitlen_bounds [OF pos] have "\<lfloor>r\<rfloor> < 2 ^ nat (bitlen \<lfloor>r\<rfloor>)" by simp
  then have "\<lfloor>r\<rfloor> + 1 \<le> 2 ^ nat (bitlen \<lfloor>r\<rfloor>)" by simp
  then have "(of_int (\<lfloor>r\<rfloor> + 1) :: rat) \<le> of_int (2 ^ nat (bitlen \<lfloor>r\<rfloor>))"
    by (simp only: of_int_le_iff)
  moreover have "r < of_int (\<lfloor>r\<rfloor> + 1)" by linarith
  ultimately have "r < 2 ^ nat (bitlen \<lfloor>r\<rfloor>)" by simp
  moreover have "(2::rat) powi (bitlen \<lfloor>r\<rfloor>) = 2 ^ nat (bitlen \<lfloor>r\<rfloor>)"
    using bitlen_nonneg [of "\<lfloor>r\<rfloor>"] by (simp add: power_int_nonneg_exp)
  ultimately show ?thesis using True by (simp add: floor_log2_def)
next
  case False
  assume r: "0 < r"
  define n where "n = \<lceil>1 / r\<rceil> - 1"
  from False r have "1 < 1 / r" by simp
  then have "1 < \<lceil>1 / r\<rceil>" by (simp add: less_ceiling_iff)
  then have pos: "0 < n" by (simp add: n_def)
  then have b1: "1 \<le> bitlen n" by (simp add: bitlen_ge_iff_power)
  from bitlen_bounds [OF pos] have "2 ^ nat (bitlen n - 1) \<le> n" by simp
  then have "(2::rat) ^ nat (bitlen n - 1) \<le> of_int n" by simp
  moreover have "of_int n < 1 / r" unfolding n_def by linarith
  ultimately have "2 ^ nat (bitlen n - 1) < 1 / r" by linarith
  then have "2 ^ nat (bitlen n - 1) * r < 1" using r by (simp add: field_simps)
  then have "r < 1 / 2 ^ nat (bitlen n - 1)" by (simp add: field_simps)
  moreover have "(2::rat) powi (- bitlen n + 1) = 1 / 2 ^ nat (bitlen n - 1)"
  proof -
    have "- bitlen n + 1 = - (bitlen n - 1)" by simp
    then show ?thesis using b1
      by (simp only: power_int_minus_divide) (simp add: power_int_nonneg_exp)
  qed
  ultimately show ?thesis using False by (simp add: floor_log2_def n_def)
qed

lemma ulp_exp_le:
  assumes "x \<noteq> 0" "\<bar>x\<bar> < 2 powi (p + 53)" "- 1074 \<le> p"
  shows "ulp_exp x \<le> p"
proof -
  from assms(1) have pos: "0 < \<bar>x\<bar>" by simp
  have "floor_log2 \<bar>x\<bar> < p + 53"
  proof (rule ccontr)
    assume "\<not> floor_log2 \<bar>x\<bar> < p + 53"
    then have "p + 53 \<le> floor_log2 \<bar>x\<bar>" by simp
    then have "(2::rat) powi (p + 53) \<le> 2 powi (floor_log2 \<bar>x\<bar>)"
      by (intro power_int_increasing) simp_all
    also have "\<dots> \<le> \<bar>x\<bar>" using pos by (rule floor_log2_lower)
    finally show False using assms(2) by simp
  qed
  with assms(3) show ?thesis by (simp add: ulp_exp_def)
qed

lemma rnd_bounded:
  assumes bound: "\<bar>x\<bar> \<le> of_nat i * 2 powi p"
    and i: "i < 2 ^ 53"
    and p: "- 1074 \<le> p"
    and range: "of_nat i * 2 powi p < (2::rat) ^ 1024"
  shows "\<exists>v. rnd x = Fin v \<and> \<bar>v\<bar> \<le> of_nat i * 2 powi p"
proof (cases "x = 0")
  case True
  then show ?thesis by (simp add: rnd_def)
next
  case False
  define e where "e = ulp_exp x"
  define u :: rat where "u = 2 powi e"
  define N :: int where "N = int i * 2 ^ nat (p - e)"
  define m where "m = round_half_even (x / u)"
  have upos: "0 < u" by (simp add: u_def)
  from i have "(of_nat i :: rat) < of_nat (2 ^ 53)" by (simp only: of_nat_less_iff)
  then have "(of_nat i :: rat) < 2 ^ 53" by simp
  then have "of_nat i * 2 powi p < (2::rat) ^ 53 * 2 powi p"
    by (intro mult_strict_right_mono) simp_all
  also have "(2::rat) ^ 53 * 2 powi p = 2 powi (p + 53)"
    by (simp add: power_int_add)
  finally have "\<bar>x\<bar> < 2 powi (p + 53)" using bound by simp
  with False p have ep: "e \<le> p" unfolding e_def by (simp add: ulp_exp_le)
  then have "(2::rat) powi (p - e) = 2 ^ nat (p - e)" by (simp add: power_int_nonneg_exp)
  moreover have "(2::rat) powi (p - e) * 2 powi e = 2 powi p"
    by (simp flip: power_int_add)
  ultimately have Nu: "of_int N * u = of_nat i * 2 powi p"
    by (simp add: N_def u_def mult.assoc)
  from bound have "x \<le> of_int N * u" "- (of_int N * u) \<le> x" unfolding Nu by simp_all
  with upos have "x / u \<le> of_int N" "of_int (- N) \<le> x / u"
    by (simp_all add: field_simps)
  then have "m \<le> N" "- N \<le> m"
    unfolding m_def by (simp_all add: round_half_even_le round_half_even_ge)
  then have "\<bar>of_int m :: rat\<bar> \<le> of_int N"
    by (metis abs_le_iff minus_le_iff of_int_le_iff of_int_minus)
  then have "\<bar>of_int m * u\<bar> \<le> of_int N * u" using upos
    by (simp add: abs_mult mult_right_mono)
  then have v: "\<bar>of_int m * u\<bar> \<le> of_nat i * 2 powi p" unfolding Nu .
  with range have "\<bar>of_int m * u\<bar> < 2 ^ 1024" by simp
  then have "\<not> 2 ^ 1024 \<le> of_int m * u" "\<not> of_int m * u \<le> - (2 ^ 1024)" by linarith+
  with False have "rnd x = Fin (of_int m * u)"
    unfolding rnd_def Let_def m_def u_def e_def by (simp only: if_False)
  with v show ?thesis by simp
qed

lemma rnd_of_int:
  assumes "\<bar>n\<bar> < 2 ^ 53"
  shows "rnd (of_int n) = Fin (of_int n)"
proof (cases "n = 0")
  case True
  then show ?thesis by (simp add: rnd_def)
next
  case False
  define e where "e = ulp_exp (of_int n)"
  define u :: rat where "u = 2 powi e"
  define k where "k = nat (- e)"
  from assms have "\<bar>of_int n :: rat\<bar> < of_int (2 ^ 53)"
    by (metis of_int_abs of_int_less_iff)
  then have "\<bar>of_int n :: rat\<bar> < 2 powi (0 + 53)" by simp
  with False have "e \<le> 0" unfolding e_def by (intro ulp_exp_le) simp_all
  then have "e = - int k" by (simp add: k_def)
  then have u: "u = 1 / 2 ^ k" by (simp add: u_def power_int_minus_divide)
  then have "of_int n / u = of_int (n * 2 ^ k)" by simp
  then have "round_half_even (of_int n / u) = n * 2 ^ k"
    by (simp only: round_half_even_of_int)
  then have v: "of_int (round_half_even (of_int n / u)) * u = of_int n"
    by (simp add: u)
  from assms have "\<bar>of_int n :: rat\<bar> < 2 ^ 53"
    by (metis of_int_abs of_int_less_iff of_int_numeral of_int_power)
  also have "(2::rat) ^ 53 < 2 ^ 1024" by simp
  finally have "\<not> 2 ^ 1024 \<le> (of_int n :: rat)" "\<not> (of_int n :: rat) \<le> - (2 ^ 1024)"
    by linarith+
  with False v show ?thesis
    unfolding rnd_def Let_def u_def e_def by simp
qed

lemma ulp_exp_large:
  assumes "2 ^ 1024 \<le> \<bar>x\<bar>"
  shows "ulp_exp x = floor_log2 \<bar>x\<bar> - 52" "1024 \<le> floor_log2 \<bar>x\<bar>"
proof -
  have "(0::rat) < 2 ^ 1024" by simp
  with assms have pos: "0 < \<bar>x\<bar>" by linarith
  show "1024 \<le> floor_log2 \<bar>x\<bar>"
  proof (rule ccontr)
    assume "\<not> 1024 \<le> floor_log2 \<bar>x\<bar>"
    then have "floor_log2 \<bar>x\<bar> + 1 \<le> 1024" by simp
    then have "(2::rat) powi (floor_log2 \<bar>x\<bar> + 1) \<le> 2 powi 1024"
      by (intro power_int_increasing) simp_all
    moreover have "\<bar>x\<bar> < 2 powi (floor_log2 \<bar>x\<bar> + 1)" using pos by (rule floor_log2_upper)
    ultimately have "\<bar>x\<bar> < 2 powi 1024" by linarith
    with assms show False by simp
  qed
  then show "ulp_exp x = floor_log2 \<bar>x\<bar> - 52" by (simp add: ulp_exp_def)
qed

lemma rnd_overflow_pos:
  assumes "2 ^ 1024 \<le> x"
  shows "rnd x = PInf"
proof -
  define f where "f = floor_log2 \<bar>x\<bar>"
  define u :: rat where "u = 2 powi (f - 52)"
  have "(0::rat) < 2 ^ 1024" by simp
  with assms have pos: "0 < x" by linarith
  then have ax: "\<bar>x\<bar> = x" by simp
  from assms ax have large: "2 ^ 1024 \<le> \<bar>x\<bar>" by simp
  have e: "ulp_exp x = f - 52" and f: "1024 \<le> f"
    using ulp_exp_large [OF large] by (simp_all add: f_def)
  have upos: "0 < u" by (simp add: u_def)
  have "2 powi f \<le> x" using floor_log2_lower [of "\<bar>x\<bar>"] pos ax by (simp add: f_def)
  moreover have fu: "(2::rat) powi f = 2 ^ 52 * u"
    unfolding u_def by (simp flip: power_int_add add: power_int_diff)
  ultimately have "of_int (2 ^ 52) \<le> x / u" using upos by (simp add: field_simps)
  then have "2 ^ 52 \<le> round_half_even (x / u)" by (rule round_half_even_ge)
  then have "(of_int (2 ^ 52) :: rat) \<le> of_int (round_half_even (x / u))"
    by (simp only: of_int_le_iff)
  then have "of_int (2 ^ 52) * u \<le> of_int (round_half_even (x / u)) * u"
    using upos by (intro mult_right_mono) simp_all
  then have "2 powi f \<le> of_int (round_half_even (x / u)) * u" by (simp add: fu)
  moreover have "(2::rat) powi 1024 \<le> 2 powi f" using f by (intro power_int_increasing) simp_all
  ultimately have "2 ^ 1024 \<le> of_int (round_half_even (x / u)) * u" by simp
  with pos e show ?thesis unfolding rnd_def Let_def u_def by simp
qed

lemma rnd_overflow_neg:
  assumes "x \<le> - (2 ^ 1024)"
  shows "rnd x = NInf"
proof -
  define f where "f = floor_log2 \<bar>x\<bar>"
  define u :: rat where "u = 2 powi (f - 52)"
  have p1024: "(0::rat) < 2 ^ 1024" by simp
  with assms have neg: "x < 0" by linarith
  then have ax: "\<bar>x\<bar> = - x" by simp
  from assms ax have large: "2 ^ 1024 \<le> \<bar>x\<bar>" by simp
  have e: "ulp_exp x = f - 52" and f: "1024 \<le> f"
    using ulp_exp_large [OF large] by (simp_all add: f_def)
  have upos: "0 < u" by (simp add: u_def)
  have "2 powi f \<le> - x" using floor_log2_lower [of "\<bar>x\<bar>"] neg ax by (simp add: f_def)
  moreover have fu: "(2::rat) powi f = 2 ^ 52 * u"
    unfolding u_def by (simp flip: power_int_add add: power_int_diff)
  ultimately have "x / u \<le> of_int (- (2 ^ 52))" using upos by (simp add: field_simps)
  then have "round_half_even (x / u) \<le> - (2 ^ 52)" by (rule round_half_even_le)
  then have "(of_int (round_half_even (x / u)) :: rat) \<le> of_int (- (2 ^ 52))"
    by (simp only: of_int_le_iff)
  then have "of_int (round_half_even (x / u)) * u \<le> of_int (- (2 ^ 52)) * u"
    using upos by (intro mult_right_mono) simp_all
  then have "of_int (round_half_even (x / u)) * u \<le> - (2 powi f)" by (simp add: fu)
  moreover have "(2::rat) powi 1024 \<le> 2 powi f" using f by (intro power_int_increasing) simp_all
  ultimately have le: "of_int (round_half_even (x / u)) * u \<le> - (2 ^ 1024)" by simp
  with p1024 have "\<not> 2 ^ 1024 \<le> of_int (round_half_even (x / u)) * u" by linarith
  with le neg e show ?thesis unfolding rnd_def Let_def u_def by simp
qed

lemma rnd_zero: "rnd 0 = Fin 0"
  by (simp add: rnd_def)

lemma rnd_one: "rnd 1 = Fin 1"
  using rnd_of_int [of 1] by simp

lemma rnd_numeral: "(numeral k :: int) < 2 ^ 53 \<Longrightarrow> rnd (numeral k) = Fin (numeral k)"
  using rnd_of_int [of "numeral k"] by simp

lemma rnd_neg_numeral: "(numeral k :: int) < 2 ^ 53 \<Longrightarrow> rnd (- numeral k) = Fin (- numeral k)"
  using rnd_of_int [of "- numeral k"] by simp

lemmas num_eval = rnd_zero rnd_one rnd_numeral rnd_neg_numeral mul_def sub_def Math_max_def

lemmas val_eval = lookup_def get_def put_def nullish_def truthy_def or_js_def coalesce_def
  typeof_def isArray_def elems_def entries_def ToNumber_def

lemmas draft_eval = DEFAULT_RATES_def default_rate_def safeNum_def orDefault_def

lemmas str_eval = toLowerCase_def trim_def is_ws_def lower_char_def char_of_def bit_0

section \<open>Totals of the concrete scenario\<close>

text \<open>
  C2. For the scenario draft, \<open>computeTotals\<close> returns the additional-items subtotal
  406 (the field \<open>addHood\<close>), \<open>mainServiceSubtotal\<close> 1129, \<open>filtersSubtotal\<close> 32,
  \<open>fuelSubtotal\<close> 46, \<open>repairsSubtotal\<close> 0 and \<open>totalPerService\<close> 1207.
\<close>

theorem computeTotals_scenario:
  "computeTotals n2s scenario_draft =
     Some \<lparr>baseRate = Fin 723, addHood = Fin 406, addFan = Fin 0,
            mainServiceSubtotal = Fin 1129, repairsSubtotal = Fin 0,
            filtersSubtotal = Fin 32, fuelSubtotal = Fin 46,
            totalPerService = Fin 1207\<rparr>"
  by (simp add: scenario_draft_def computeTotals_def num_eval val_eval draft_eval)

theorem computeTotals_scenario_witness:
  "computeTotals n2s0 scenario_draft =
     Some \<lparr>baseRate = Fin 723, addHood = Fin 406, addFan = Fin 0,
            mainServiceSubtotal = Fin 1129, repairsSubtotal = Fin 0,
            filtersSubtotal = Fin 32, fuelSubtotal = Fin 46,
            totalPerService = Fin 1207\<rparr>"
  by (rule computeTotals_scenario)

section \<open>Legacy flat fields\<close>

text \<open>
  C7. For the legacy-shaped draft, which has no \<open>additionalItems\<close> array,
  \<open>normalizeAdditionalItems\<close> builds the array from the flat fields: its first entry is
  "Additional Hood" with quantity 1 and rate 200. The second entry is there because
  \<open>additionalFanQty\<close> is present; its rate is the default.
\<close>

theorem normalizeAdditionalItems_legacy:
  "normalizeAdditionalItems n2s legacy_draft =
     Some (Arr [Obj [(''description'', Str ''Additional Hood''), (''qty'', Num (Fin 1)),
                     (''rate'', Num (Fin 200)), (''frequency'', Str [])],
                Obj [(''description'', Str ''Additional Fan''), (''qty'', Num (Fin 0)),
                     (''rate'', Num (Fin 203)), (''frequency'', Str [])]])"
  by (simp add: legacy_draft_def normalizeAdditionalItems_def Let_def num_eval val_eval draft_eval)

theorem normalizeAdditionalItems_legacy_witness:
  "normalizeAdditionalItems n2s0 legacy_draft =
     Some (Arr [Obj [(''description'', Str ''Additional Hood''), (''qty'', Num (Fin 1)),
                     (''rate'', Num (Fin 200)), (''frequency'', Str [])],
                Obj [(''description'', Str ''Additional Fan''), (''qty'', Num (Fin 0)),
                     (''rate'', Num (Fin 203)), (''frequency'', Str [])]])"
  by (rule normalizeAdditionalItems_legacy)

section \<open>The non-object branch of applyDefaults\<close>

text \<open>
  C9. For every input that is not an object (\<open>null\<close>, \<open>undefined\<close>, a number, a string, a
  boolean), \<open>applyDefaults\<close> returns a copy of \<open>DEFAULT_RATES\<close>: its six rate fields and
  nothing else, so no \<open>additionalItems\<close>, \<open>repairs\<close>, \<open>initialHoodQty\<close> or
  \<open>initialFanQty\<close>.
\<close>

theorem applyDefaults_non_object:
  assumes "\<not> is_object v"
  shows "applyDefaults n2s v = Some (Obj DEFAULT_RATES)
    \<and> map fst DEFAULT_RATES = rate_fields
    \<and> get (Obj DEFAULT_RATES) ''additionalItems'' = Undefined
    \<and> get (Obj DEFAULT_RATES) ''repairs'' = Undefined
    \<and> get (Obj DEFAULT_RATES) ''initialHoodQty'' = Undefined
    \<and> get (Obj DEFAULT_RATES) ''initialFanQty'' = Undefined"
proof -
  from assms have "\<not> truthy v \<or> typeof v \<noteq> ''object''"
    by (cases v) (simp_all add: is_object_def truthy_def typeof_def)
  then have "applyDefaults n2s v = Some (Obj DEFAULT_RATES)"
    by (simp add: applyDefaults_def entries_def)
  then show ?thesis
    by (simp add: DEFAULT_RATES_def rate_fields_def get_def lookup_def)
qed

theorem applyDefaults_non_object_witness:
  "\<not> is_object Null \<and> applyDefaults n2s0 Null = Some (Obj DEFAULT_RATES)
    \<and> \<not> is_object (Str ''draft'') \<and> applyDefaults n2s0 (Str ''draft'') = Some (Obj DEFAULT_RATES)
    \<and> \<not> is_object (Num (Fin 7)) \<and> applyDefaults n2s0 (Num (Fin 7)) = Some (Obj DEFAULT_RATES)"
  using applyDefaults_non_object [of Null n2s0] applyDefaults_non_object [of "Str ''draft''" n2s0]
    applyDefaults_non_object [of "Num (Fin 7)" n2s0]
  by (simp add: is_object_def)


section \<open>The addHood and addFan fields\<close>

lemma reduce_items_foldl:
  "reduce_items n2s acc items = Some r \<Longrightarrow>
   foldl (\<lambda>s a. do {
            acc \<leftarrow> s;
            qty \<leftarrow> safeNum n2s (get a ''qty'');
            rate \<leftarrow> orDefault n2s (get a ''rate'') (default_rate ''additionalHoodRate'');
            Some (add acc (mul qty rate))
          })
     (Some acc) items = Some r"
  by (induction items arbitrary: acc) (auto split: if_splits Option.bind_splits)

text \<open>
  C10. Whenever \<open>computeTotals\<close> returns a record, its \<open>addFan\<close> field is 0 and its
  \<open>addHood\<close> field is the subtotal of all additional items, whatever their descriptions:
  the items are \<open>draft.additionalItems\<close> when that is an array and the normalized items
  otherwise. In the instance below a hood entry and a fan entry both count towards
  \<open>addHood\<close>.
\<close>

theorem computeTotals_addHood_addFan:
  assumes "computeTotals n2s d = Some t"
  shows "addFan t = Fin 0
    \<and> (\<exists>items. (if isArray (get d ''additionalItems'') then Some (get d ''additionalItems'')
                  else normalizeAdditionalItems n2s (or_js d (Obj []))) = Some items
         \<and> additionalSubtotal n2s (elems items) = Some (addHood t))"
  using assms
  by (auto simp: computeTotals_def Let_def additionalSubtotal_def
      split: if_splits Option.bind_splits dest!: reduce_items_foldl)

theorem computeTotals_addHood_addFan_witness:
  "addFan (the (computeTotals n2s0 hood_fan_draft)) = Fin 0
   \<and> addHood (the (computeTotals n2s0 hood_fan_draft)) = Fin 706
   \<and> additionalSubtotal n2s0 (elems (get hood_fan_draft ''additionalItems'')) = Some (Fin 706)"
proof -
  have ev: "computeTotals n2s0 hood_fan_draft =
    Some \<lparr>baseRate = Fin 723, addHood = Fin 706, addFan = Fin 0, mainServiceSubtotal = Fin 1429,
      repairsSubtotal = Fin 0, filtersSubtotal = Fin 0, fuelSubtotal = Fin 46,
      totalPerService = Fin 1475\<rparr>"
    by (simp add: hood_fan_draft_def computeTotals_def normalizeRepairs_def Let_def num_eval val_eval draft_eval)
  have "isArray (get hood_fan_draft ''additionalItems'')"
    by (simp add: hood_fan_draft_def val_eval)
  with computeTotals_addHood_addFan [OF ev] show ?thesis
    by (simp add: ev)
qed

section \<open>mergeDraft\<close>

lemma lookup_put: "lookup (put d k v) k' = (if k' = k then v else lookup d k')"
  by (simp add: lookup_def put_def update_conv)

lemma merge_foldl_lookup:
  "distinct (map fst inc) \<Longrightarrow>
   lookup (foldl (\<lambda>out (k, v). if v \<noteq> Undefined then put out k v else out) out inc) k =
     (case map_of inc k of None \<Rightarrow> lookup out k | Some v \<Rightarrow> if v = Undefined then lookup out k else v)"
proof (induction inc arbitrary: out)
  case Nil
  then show ?case by simp
next
  case (Cons p inc)
  obtain k0 v0 where p: "p = (k0, v0)" by (cases p)
  from Cons.prems p have "map_of inc k0 = None"
    by (simp add: map_of_eq_None_iff)
  with Cons p show ?case
    by (auto simp: lookup_put split: option.splits)
qed

text \<open>
  C8. \<open>mergeDraft\<close> copies onto \<open>prev\<close> only the keys of \<open>incoming\<close> whose value is not
  \<open>undefined\<close>: merging \<open>{}\<close> gives \<open>prev\<close> back, merging \<open>{baseRate: 100}\<close> changes
  the \<open>baseRate\<close> field and no other, and in general every property of the result is the
  defined property of \<open>incoming\<close> if there is one and the property of \<open>prev\<close> otherwise.
  The keys of an object are distinct. The assignment \<open>out[k] = v\<close> with the key
  \<open>__proto__\<close> sets the prototype, not a property; that key is left out of the general
  statement.
\<close>

theorem mergeDraft_frame:
  assumes "distinct (map fst incoming)" and "''__proto__'' \<notin> fst ` set incoming"
  shows "mergeDraft (Obj prev) (Obj []) = Obj prev
    \<and> get (mergeDraft (Obj prev) (Obj [(''baseRate'', Num (Fin 100))])) k =
        (if k = ''baseRate'' then Num (Fin 100) else get (Obj prev) k)
    \<and> get (mergeDraft (Obj prev) (Obj incoming)) k =
        (case map_of incoming k of
           None \<Rightarrow> get (Obj prev) k
         | Some v \<Rightarrow> if v = Undefined then get (Obj prev) k else v)"
proof -
  have "mergeDraft (Obj prev) (Obj []) = Obj prev"
    by (simp add: mergeDraft_def Let_def truthy_def typeof_def or_js_def entries_def)
  moreover have "get (mergeDraft (Obj prev) (Obj [(''baseRate'', Num (Fin 100))])) k =
        (if k = ''baseRate'' then Num (Fin 100) else get (Obj prev) k)"
    by (simp add: mergeDraft_def Let_def truthy_def typeof_def or_js_def entries_def get_def lookup_put)
  moreover have "get (mergeDraft (Obj prev) (Obj incoming)) k =
        (case map_of incoming k of
           None \<Rightarrow> get (Obj prev) k
         | Some v \<Rightarrow> if v = Undefined then get (Obj prev) k else v)"
    using merge_foldl_lookup [OF assms(1), of prev k]
    by (simp add: mergeDraft_def Let_def truthy_def typeof_def or_js_def entries_def get_def
        split: option.splits)
  ultimately show ?thesis by simp
qed

theorem mergeDraft_frame_witness:
  "distinct (map fst [(''baseRate'', Num (Fin 100)), (''address'', Undefined)])
   \<and> ''__proto__'' \<notin> fst ` set [(''baseRate'', Num (Fin 100)), (''address'', Undefined)]
   \<and> mergeDraft (Obj [(''address'', Str ''1 Main St''), (''baseRate'', Num (Fin 723))]) (Obj [])
       = Obj [(''address'', Str ''1 Main St''), (''baseRate'', Num (Fin 723))]
   \<and> mergeDraft (Obj [(''address'', Str ''1 Main St''), (''baseRate'', Num (Fin 723))])
       (Obj [(''baseRate'', Num (Fin 100)), (''address'', Undefined)])
       = Obj [(''address'', Str ''1 Main St''), (''baseRate'', Num (Fin 100))]
   \<and> get (mergeDraft (Obj [(''address'', Str ''1 Main St''), (''baseRate'', Num (Fin 723))])
       (Obj [(''baseRate'', Num (Fin 100)), (''address'', Undefined)])) ''address'' = Str ''1 Main St''"
  using mergeDraft_frame [of "[(''baseRate'', Num (Fin 100)), (''address'', Undefined)]"
      "[(''address'', Str ''1 Main St''), (''baseRate'', Num (Fin 723))]" "''address''"]
  by (simp add: mergeDraft_def val_eval)

section \<open>Conversions that cannot throw\<close>

lemma those_map_Some:
  "(\<And>x. x \<in> set xs \<Longrightarrow> \<exists>y. f x = Some y) \<Longrightarrow> \<exists>ys. those (map f xs) = Some ys"
proof (induction xs)
  case Nil
  then show ?case by simp
next
  case (Cons x xs)
  then obtain y ys where "f x = Some y" "those (map f xs) = Some ys"
    by (meson list.set_intros)
  then show ?case by simp
qed

lemma those_map_length:
  "those (map f xs) = Some ys \<Longrightarrow> length ys = length xs"
  by (induction xs arbitrary: ys) (auto split: option.splits)

lemma convertible_ToString: "convertible v \<Longrightarrow> \<exists>s. ToString n2s v = Some s"
proof (induction v rule: convertible.induct)
  case (1 xs)
  have "\<exists>ys. those (map (\<lambda>x. if x = Undefined \<or> x = Null then Some [] else ToString n2s x) xs) = Some ys"
    by (rule those_map_Some) (use 1 in auto)
  then show ?case by auto
qed simp_all

lemma convertible_ToNumber: "convertible v \<Longrightarrow> \<exists>n. ToNumber n2s v = Some n"
  using convertible_ToString [of v n2s] by (cases v) (auto simp: ToNumber_def)

lemma convertible_lookup: "convertible (Obj kvs) \<Longrightarrow> convertible (lookup kvs k)"
proof -
  assume c: "convertible (Obj kvs)"
  show ?thesis
  proof (cases "map_of kvs k")
    case None
    then show ?thesis by (simp add: lookup_def)
  next
    case (Some v)
    then have "v \<in> snd ` set kvs"
      by (metis map_of_SomeD snd_conv image_eqI)
    with c Some show ?thesis by (auto simp: lookup_def)
  qed
qed

lemma convertible_get: "convertible v \<Longrightarrow> convertible (get v k)"
  using convertible_lookup by (cases v) (simp_all add: get_def)

lemma convertible_coalesce: "convertible a \<Longrightarrow> convertible b \<Longrightarrow> convertible (coalesce a b)"
  by (simp add: coalesce_def)

lemma convertible_or_js: "convertible a \<Longrightarrow> convertible b \<Longrightarrow> convertible (or_js a b)"
  by (simp add: or_js_def)

lemma convertible_elems: "convertible v \<Longrightarrow> x \<in> set (elems v) \<Longrightarrow> convertible x"
  by (cases v) (simp_all add: elems_def)

lemma safeNum_returns: "convertible v \<Longrightarrow> \<exists>q. safeNum n2s v = Some q"
  using convertible_ToNumber [of v n2s] by (auto simp: safeNum_def)

lemma orDefault_returns: "convertible v \<Longrightarrow> \<exists>q. orDefault n2s v dflt = Some q"
  using convertible_ToNumber [of v n2s] by (auto simp: orDefault_def)

lemma normalize_item_returns:
  assumes "convertible a" and "convertible f"
  shows "\<exists>y. normalize_item n2s f a = Some y"
proof -
  obtain ds where "ToString n2s (coalesce (get a ''description'') (Str [])) = Some ds"
    using convertible_ToString [OF convertible_coalesce [OF convertible_get [OF assms(1)]]]
    by (metis convertible.simps(7))
  moreover obtain q where "safeNum n2s (get a ''qty'') = Some q"
    using safeNum_returns [OF convertible_get [OF assms(1)]] by blast
  moreover obtain r where
    "orDefault n2s (get a ''rate'') (default_rate ''additionalHoodRate'') = Some r"
    using orDefault_returns [OF convertible_get [OF assms(1)]] by blast
  moreover obtain fs where "ToString n2s (coalesce (get a ''frequency'') f) = Some fs"
    using convertible_ToString [OF convertible_coalesce [OF convertible_get [OF assms(1)] assms(2)]]
    by blast
  ultimately show ?thesis by (simp add: normalize_item_def)
qed

lemma normalize_repair_returns:
  assumes "convertible r"
  shows "\<exists>y. normalize_repair n2s r = Some y"
proof -
  obtain ds where "ToString n2s (coalesce (get r ''description'') (Str [])) = Some ds"
    using convertible_ToString [OF convertible_coalesce [OF convertible_get [OF assms(1)]]]
    by (metis convertible.simps(7))
  moreover obtain q where "safeNum n2s (get r ''amount'') = Some q"
    using safeNum_returns [OF convertible_get [OF assms(1)]] by blast
  ultimately show ?thesis by (simp add: normalize_repair_def)
qed

text \<open>The two normalizers return when the properties they read are convertible.\<close>

lemma normalizeRepairs_returns:
  assumes "\<not> nullish d" and "convertible (get d ''repairs'')"
    and "convertible (get d ''repairDescription'')" and "convertible (get d ''repairRate'')"
  shows "\<exists>r. normalizeRepairs n2s d = Some r"
proof -
  have "\<exists>ys. those (map (normalize_repair n2s) (elems (get d ''repairs''))) = Some ys"
    by (rule those_map_Some) (use assms(2) convertible_elems normalize_repair_returns in blast)
  moreover obtain ds where "ToString n2s (coalesce (get d ''repairDescription'') (Str [])) = Some ds"
    using convertible_ToString [OF convertible_coalesce, of "get d ''repairDescription''" "Str []"] assms(3)
    by auto
  moreover obtain q where "safeNum n2s (get d ''repairRate'') = Some q"
    using safeNum_returns assms(4) by blast
  ultimately show ?thesis
    using assms(1) by (auto simp: normalizeRepairs_def)
qed

lemma normalizeAdditionalItems_returns:
  assumes "\<not> nullish d" and "convertible (get d ''additionalItems'')"
    and "convertible (get d ''cleaningFrequency'')"
    and "convertible (get d ''additionalHoodQty'')" and "convertible (get d ''additionalHoodRate'')"
    and "convertible (get d ''additionalFanQty'')" and "convertible (get d ''additionalFanRate'')"
  shows "\<exists>r. normalizeAdditionalItems n2s d = Some r"
proof -
  have f: "convertible (or_js (get d ''cleaningFrequency'') (Str []))"
    using assms(3) by (simp add: convertible_or_js)
  have "\<exists>ys. those (map (normalize_item n2s (or_js (get d ''cleaningFrequency'') (Str [])))
      (elems (get d ''additionalItems''))) = Some ys"
    by (rule those_map_Some) (use assms(2) f convertible_elems normalize_item_returns in blast)
  moreover obtain q1 where "safeNum n2s (get d ''additionalHoodQty'') = Some q1"
    using safeNum_returns assms(4) by blast
  moreover obtain q2 where "safeNum n2s (get d ''additionalFanQty'') = Some q2"
    using safeNum_returns assms(6) by blast
  moreover obtain r1 where
    "orDefault n2s (get d ''additionalHoodRate'') (default_rate ''additionalHoodRate'') = Some r1"
    using orDefault_returns assms(5) by blast
  moreover obtain r2 where
    "orDefault n2s (get d ''additionalFanRate'') (default_rate ''additionalFanRate'') = Some r2"
    using orDefault_returns assms(7) by blast
  ultimately show ?thesis
    using assms(1) by (auto simp: normalizeAdditionalItems_def Let_def)
qed

section \<open>Placeholders\<close>

lemma normalizeRepairs_nonempty:
  assumes "normalizeRepairs n2s d = Some r"
  shows "\<exists>x xs. r = Arr (x # xs)"
proof (cases "isArray (get d ''repairs'') \<and> 0 < length (elems (get d ''repairs''))")
  case True
  with assms obtain ys where ys: "those (map (normalize_repair n2s) (elems (get d ''repairs''))) = Some ys"
    and r: "r = Arr ys"
    by (auto simp: normalizeRepairs_def split: if_splits)
  from those_map_length [OF ys] True have "ys \<noteq> []" by auto
  with r show ?thesis by (cases ys) simp_all
next
  case False
  with assms show ?thesis
    by (auto simp: normalizeRepairs_def split: if_splits Option.bind_splits)
qed

lemma normalizeAdditionalItems_nonempty:
  assumes "normalizeAdditionalItems n2s d = Some r"
  shows "\<exists>x xs. r = Arr (x # xs)"
proof (cases "isArray (get d ''additionalItems'') \<and> 0 < length (elems (get d ''additionalItems''))")
  case True
  with assms obtain ys where
    ys: "those (map (normalize_item n2s (or_js (get d ''cleaningFrequency'') (Str [])))
           (elems (get d ''additionalItems''))) = Some ys"
    and r: "r = Arr ys"
    by (auto simp: normalizeAdditionalItems_def Let_def split: if_splits)
  from those_map_length [OF ys] True have "ys \<noteq> []" by auto
  with r show ?thesis by (cases ys) simp_all
next
  case False
  with assms show ?thesis
    by (auto simp: normalizeAdditionalItems_def Let_def split: if_splits Option.bind_splits)
qed


text \<open>
  C6, as the code has it. On \<open>null\<close> and \<open>undefined\<close> both functions throw. For every other
  draft, a result of \<open>normalizeRepairs\<close> or \<open>normalizeAdditionalItems\<close> is a non-empty
  array, and both functions return when no object in the draft has an own property named
  \<open>toString\<close>. When there is no non-empty array and no legacy flat field, the function
  returns the single placeholder: \<open>{description: "", amount: 0}\<close> for repairs, and an
  "Additional Hood" entry with quantity 0, the default rate and the draft's cleaning
  frequency for the additional items.
\<close>

theorem normalize_never_empty:
  assumes "\<not> nullish d"
  shows "(\<forall>r. normalizeRepairs n2s d = Some r \<longrightarrow> (\<exists>x xs. r = Arr (x # xs)))
    \<and> (\<forall>a. normalizeAdditionalItems n2s d = Some a \<longrightarrow> (\<exists>x xs. a = Arr (x # xs)))
    \<and> (convertible d \<longrightarrow>
         (\<exists>x xs. normalizeRepairs n2s d = Some (Arr (x # xs)))
         \<and> (\<exists>x xs. normalizeAdditionalItems n2s d = Some (Arr (x # xs))))
    \<and> (\<not> (isArray (get d ''repairs'') \<and> 0 < length (elems (get d ''repairs'')))
         \<and> nullish (get d ''repairDescription'') \<and> nullish (get d ''repairRate'')
       \<longrightarrow> normalizeRepairs n2s d =
             Some (Arr [Obj [(''description'', Str []), (''amount'', Num (Fin 0))]]))
    \<and> (\<not> (isArray (get d ''additionalItems'') \<and> 0 < length (elems (get d ''additionalItems'')))
         \<and> nullish (get d ''additionalHoodQty'') \<and> nullish (get d ''additionalHoodRate'')
         \<and> nullish (get d ''additionalFanQty'') \<and> nullish (get d ''additionalFanRate'')
       \<longrightarrow> normalizeAdditionalItems n2s d =
             Some (Arr [Obj [(''description'', Str ''Additional Hood''), (''qty'', Num (Fin 0)),
                             (''rate'', Num (Fin 203)),
                             (''frequency'', or_js (get d ''cleaningFrequency'') (Str []))]]))"
proof (intro conjI impI allI)
  fix r assume "normalizeRepairs n2s d = Some r"
  then show "\<exists>x xs. r = Arr (x # xs)" by (rule normalizeRepairs_nonempty)
next
  fix a assume "normalizeAdditionalItems n2s d = Some a"
  then show "\<exists>x xs. a = Arr (x # xs)" by (rule normalizeAdditionalItems_nonempty)
next
  assume c: "convertible d"
  from normalizeRepairs_returns [OF assms, of n2s] c obtain r where r: "normalizeRepairs n2s d = Some r"
    by (auto simp: convertible_get)
  with normalizeRepairs_nonempty [OF r] show "\<exists>x xs. normalizeRepairs n2s d = Some (Arr (x # xs))"
    by auto
next
  assume c: "convertible d"
  from normalizeAdditionalItems_returns [OF assms, of n2s] c
  obtain a where a: "normalizeAdditionalItems n2s d = Some a"
    by (auto simp: convertible_get)
  with normalizeAdditionalItems_nonempty [OF a]
  show "\<exists>x xs. normalizeAdditionalItems n2s d = Some (Arr (x # xs))"
    by auto
next
  assume "\<not> (isArray (get d ''repairs'') \<and> 0 < length (elems (get d ''repairs'')))
    \<and> nullish (get d ''repairDescription'') \<and> nullish (get d ''repairRate'')"
  with assms show "normalizeRepairs n2s d =
      Some (Arr [Obj [(''description'', Str []), (''amount'', Num (Fin 0))]])"
    by (simp add: normalizeRepairs_def)
next
  assume "\<not> (isArray (get d ''additionalItems'') \<and> 0 < length (elems (get d ''additionalItems'')))
    \<and> nullish (get d ''additionalHoodQty'') \<and> nullish (get d ''additionalHoodRate'')
    \<and> nullish (get d ''additionalFanQty'') \<and> nullish (get d ''additionalFanRate'')"
  with assms show "normalizeAdditionalItems n2s d =
      Some (Arr [Obj [(''description'', Str ''Additional Hood''), (''qty'', Num (Fin 0)),
                      (''rate'', Num (Fin 203)),
                      (''frequency'', or_js (get d ''cleaningFrequency'') (Str []))]])"
    by (simp add: normalizeAdditionalItems_def Let_def default_rate_def DEFAULT_RATES_def lookup_def)
qed

theorem normalize_never_empty_witness:
  "\<not> nullish (Obj []) \<and> convertible (Obj [])
   \<and> normalizeRepairs n2s0 (Obj []) = Some (Arr [Obj [(''description'', Str []), (''amount'', Num (Fin 0))]])
   \<and> normalizeAdditionalItems n2s0 (Obj []) =
       Some (Arr [Obj [(''description'', Str ''Additional Hood''), (''qty'', Num (Fin 0)),
                       (''rate'', Num (Fin 203)), (''frequency'', Str [])]])"
  using normalize_never_empty [of "Obj []" n2s0]
  by (simp add: val_eval has_key_def)

text \<open>
  C6, as stated, fails: \<open>{repairs: [{description: {toString: 1}}]}\<close> is a draft, and
  \<open>normalizeRepairs\<close> returns no array on it: \<open>String\<close> throws a \<open>TypeError\<close> on the
  description. So does \<open>normalizeAdditionalItems\<close> on
  \<open>{additionalItems: [{description: {toString: 1}}]}\<close>.
\<close>

theorem normalize_throws_counterexample:
  "\<not> nullish toString_repair_draft
   \<and> normalizeRepairs n2s0 toString_repair_draft = None
   \<and> \<not> nullish toString_item_draft
   \<and> normalizeAdditionalItems n2s0 toString_item_draft = None"
  by (simp add: toString_repair_draft_def toString_item_draft_def toString_object_def
      normalizeRepairs_def normalizeAdditionalItems_def normalize_repair_def normalize_item_def
      has_key_def val_eval)

section \<open>Defaulting of the rate fields\<close>

lemma lookup_fill_default:
  "lookup (fill_default d k) k' =
     (if k' = k \<and> (nullish (lookup d k) \<or> lookup d k = Str []) then lookup DEFAULT_RATES k
      else lookup d k')"
  by (simp add: fill_default_def lookup_put)

lemma lookup_clamp_initial_other:
  "clamp_initial n2s d k = Some e \<Longrightarrow> k' \<noteq> k \<Longrightarrow> lookup e k' = lookup d k'"
  by (auto simp: clamp_initial_def lookup_put split: if_splits Option.bind_splits)

lemma clamp_initial_returns:
  "convertible (lookup d k) \<Longrightarrow> \<exists>e. clamp_initial n2s d k = Some e"
  using convertible_ToNumber [of "lookup d k" n2s] by (auto simp: clamp_initial_def)

text \<open>\<open>applyDefaults\<close> on an object, statement by statement.\<close>

lemma applyDefaults_Obj:
  "applyDefaults n2s (Obj d) = do {
     r \<leftarrow> normalizeRepairs n2s (Obj (fill_rates d));
     a \<leftarrow> normalizeAdditionalItems n2s (Obj (put (fill_rates d) ''repairs'' r));
     e \<leftarrow> clamp_initial n2s (put (put (fill_rates d) ''repairs'' r) ''additionalItems'' a) ''initialHoodQty'';
     e \<leftarrow> clamp_initial n2s e ''initialFanQty'';
     Some (Obj e)
   }"
  by (simp add: applyDefaults_def truthy_def typeof_def entries_def Let_def fill_rates_def
      rate_fields_def)

lemma applyDefaults_SomeD:
  assumes "applyDefaults n2s (Obj d) = Some x"
  shows "\<exists>r a e1 e. normalizeRepairs n2s (Obj (fill_rates d)) = Some r
     \<and> normalizeAdditionalItems n2s (Obj (put (fill_rates d) ''repairs'' r)) = Some a
     \<and> clamp_initial n2s (put (put (fill_rates d) ''repairs'' r) ''additionalItems'' a) ''initialHoodQty'' = Some e1
     \<and> clamp_initial n2s e1 ''initialFanQty'' = Some e
     \<and> x = Obj e"
  using assms unfolding applyDefaults_Obj
  by (auto split: Option.bind_splits)

lemma lookup_foldl_fill_default:
  "distinct ks \<Longrightarrow>
   lookup (foldl fill_default d ks) k =
     (if k \<in> set ks \<and> (nullish (lookup d k) \<or> lookup d k = Str [])
      then lookup DEFAULT_RATES k else lookup d k)"
proof (induction ks arbitrary: d)
  case Nil
  then show ?case by simp
next
  case (Cons k0 ks)
  then show ?case
    by (cases "k = k0") (auto simp: lookup_fill_default)
qed

lemma lookup_fill_rates:
  "lookup (fill_rates d) k =
     (if k \<in> set rate_fields \<and> (nullish (lookup d k) \<or> lookup d k = Str [])
      then lookup DEFAULT_RATES k else lookup d k)"
  unfolding fill_rates_def
  by (rule lookup_foldl_fill_default) (simp add: rate_fields_def)

lemma convertible_default: "convertible (lookup DEFAULT_RATES k)"
  by (simp add: DEFAULT_RATES_def lookup_def)

lemma convertible_fill_rates:
  "convertible (lookup d k) \<Longrightarrow> convertible (lookup (fill_rates d) k)"
  by (simp add: lookup_fill_rates convertible_default)

lemma get_Obj: "get (Obj d) k = lookup d k"
  by (simp add: get_def)

lemma applyDefaults_returns:
  assumes "\<And>k. convertible (lookup d k)"
  shows "\<exists>x. applyDefaults n2s (Obj d) = Some x"
proof -
  have c: "convertible (lookup (fill_rates d) k)" for k
    using assms by (rule convertible_fill_rates)
  obtain r where r: "normalizeRepairs n2s (Obj (fill_rates d)) = Some r"
    using normalizeRepairs_returns [of "Obj (fill_rates d)" n2s] c
    by (auto simp: get_Obj nullish_def)
  let ?d7 = "put (fill_rates d) ''repairs'' r"
  obtain a where a: "normalizeAdditionalItems n2s (Obj ?d7) = Some a"
    using normalizeAdditionalItems_returns [of "Obj ?d7" n2s] c
    by (auto simp: get_Obj nullish_def lookup_put)
  let ?d8 = "put ?d7 ''additionalItems'' a"
  obtain e1 where e1: "clamp_initial n2s ?d8 ''initialHoodQty'' = Some e1"
    using clamp_initial_returns [of ?d8 "''initialHoodQty''" n2s] c
    by (auto simp: lookup_put)
  have "lookup e1 ''initialFanQty'' = lookup ?d8 ''initialFanQty''"
    by (rule lookup_clamp_initial_other [OF e1]) simp
  then have "convertible (lookup e1 ''initialFanQty'')"
    using c by (simp add: lookup_put)
  then obtain e where "clamp_initial n2s e1 ''initialFanQty'' = Some e"
    using clamp_initial_returns by blast
  with r a e1 show ?thesis
    by (simp add: applyDefaults_Obj)
qed












section \<open>Idempotence of applyDefaults\<close>

lemma dropWhile_id: "xs = [] \<or> \<not> P (hd xs) \<Longrightarrow> dropWhile P xs = xs"
  by (cases xs) auto

lemma dropWhile_hd: "dropWhile P xs = [] \<or> \<not> P (hd (dropWhile P xs))"
  using hd_dropWhile [of P xs] by blast

lemma trim_trim: "trim (trim s) = trim s"
proof -
  define u where "u = dropWhile is_ws s"
  define w where "w = dropWhile is_ws (rev u)"
  have t: "trim s = rev w" by (simp add: trim_def u_def w_def)
  have u: "u = [] \<or> \<not> is_ws (hd u)" unfolding u_def by (rule dropWhile_hd)
  have w: "w = [] \<or> \<not> is_ws (hd w)" unfolding w_def by (rule dropWhile_hd)
  have "rev w = [] \<or> \<not> is_ws (hd (rev w))"
  proof (cases "w = []")
    case True
    then show ?thesis by simp
  next
    case False
    have "\<exists>p. rev u = p @ w" unfolding w_def
      by (metis takeWhile_dropWhile_id)
    then obtain p where "rev u = p @ w" ..
    then have "u = rev w @ rev p" by (metis rev_append rev_rev_ident)
    with False have "hd u = hd (rev w)" by simp
    moreover from False \<open>u = rev w @ rev p\<close> have "u \<noteq> []" by simp
    ultimately show ?thesis using u by simp
  qed
  then have 1: "dropWhile is_ws (rev w) = rev w" by (rule dropWhile_id)
  from w have 2: "dropWhile is_ws w = w" by (rule dropWhile_id)
  show ?thesis unfolding t by (simp add: trim_def 1 2)
qed

lemma trim_Nil: "trim [] = []"
  by (simp add: trim_def)

lemma safeNum_finite: "safeNum n2s v = Some q \<Longrightarrow> \<exists>x. q = Fin x"
  by (auto simp: safeNum_def split: Option.bind_splits if_splits elim: isFinite.elims)

lemma orDefault_finite: "orDefault n2s v (Fin c) = Some q \<Longrightarrow> \<exists>x. q = Fin x"
  by (auto simp: orDefault_def split: Option.bind_splits if_splits elim: isFinite.elims)

lemma safeNum_Fin: "safeNum n2s (Num (Fin x)) = Some (Fin x)"
  by (simp add: safeNum_def ToNumber_def)

lemma orDefault_Fin: "orDefault n2s (Num (Fin x)) dflt = Some (Fin x)"
  by (simp add: orDefault_def ToNumber_def)

lemma default_rate_hood: "default_rate ''additionalHoodRate'' = Fin 203"
  and default_rate_fan: "default_rate ''additionalFanRate'' = Fin 203"
  by (simp_all add: default_rate_def DEFAULT_RATES_def lookup_def)

lemma those_map_set:
  "those (map f xs) = Some ys \<Longrightarrow> y \<in> set ys \<Longrightarrow> \<exists>x \<in> set xs. f x = Some y"
proof (induction xs arbitrary: ys)
  case Nil
  then show ?case by simp
next
  case (Cons x xs)
  then show ?case by (auto split: option.splits)
qed

lemma those_map_id: "(\<And>x. x \<in> set xs \<Longrightarrow> f x = Some x) \<Longrightarrow> those (map f xs) = Some xs"
  by (induction xs) simp_all

text \<open>The default frequency of a draft is a trimmed string when its cleaning frequency is plain.\<close>

lemma plain_default:
  assumes "plain_frequency cf"
  shows "\<exists>s. or_js cf (Str []) = Str s \<and> trim s = s"
  using assms by (cases cf) (auto simp: plain_frequency_def or_js_def truthy_def trim_Nil)

lemma plain_truthy:
  "plain_frequency v \<Longrightarrow> truthy v \<Longrightarrow> \<exists>s. v = Str s \<and> s \<noteq> [] \<and> trim s = s"
  by (cases v) (auto simp: plain_frequency_def truthy_def)

text \<open>An item with finite numbers and a trimmed frequency, which is empty only when the
  default frequency is, is a fixed point of the callback.\<close>

lemma normalize_item_fixed:
  assumes "trim s = s" "trim t = t" "t = [] \<longrightarrow> s = []"
  shows "normalize_item n2s (Str s)
           (Obj [(''description'', Str ds), (''qty'', Num (Fin q)), (''rate'', Num (Fin r)),
                 (''frequency'', Str t)])
         = Some (Obj [(''description'', Str ds), (''qty'', Num (Fin q)), (''rate'', Num (Fin r)),
                 (''frequency'', Str t)])"
  using assms
  by (auto simp: normalize_item_def get_def lookup_def coalesce_def nullish_def safeNum_Fin
      orDefault_Fin or_js_def truthy_def)

lemma normalize_item_idem:
  assumes s: "trim s = s" and y: "normalize_item n2s (Str s) a = Some y"
  shows "normalize_item n2s (Str s) y = Some y"
proof -
  from y obtain ds q r fs where
    q: "safeNum n2s (get a ''qty'') = Some q"
    and r: "orDefault n2s (get a ''rate'') (Fin 203) = Some r"
    and yy: "y = Obj [(''description'', Str ds), (''qty'', Num q), (''rate'', Num r),
        (''frequency'', or_js (Str (trim fs)) (Str s))]"
    by (auto simp: normalize_item_def default_rate_hood split: Option.bind_splits)
  from safeNum_finite [OF q] obtain q' where q': "q = Fin q'" ..
  from orDefault_finite [OF r] obtain r' where r': "r = Fin r'" ..
  obtain t where t: "or_js (Str (trim fs)) (Str s) = Str t" "trim t = t" "t = [] \<longrightarrow> s = []"
    using s by (cases "trim fs = []") (auto simp: or_js_def truthy_def trim_trim)
  show ?thesis
    unfolding yy q' r' t(1) using s t(2,3) by (rule normalize_item_fixed)
qed

lemma normalize_repair_idem:
  assumes "normalize_repair n2s r = Some y"
  shows "normalize_repair n2s y = Some y"
proof -
  from assms obtain ds q where q: "safeNum n2s (get r ''amount'') = Some q"
    and y: "y = Obj [(''description'', Str ds), (''amount'', Num q)]"
    by (auto simp: normalize_repair_def split: Option.bind_splits)
  from safeNum_finite [OF q] obtain q' where "q = Fin q'" ..
  with y show ?thesis
    by (simp add: normalize_repair_def get_def lookup_def coalesce_def nullish_def safeNum_Fin)
qed

lemma normalizeRepairs_out:
  assumes "normalizeRepairs n2s (Obj d) = Some r"
  shows "\<exists>xs. r = Arr xs \<and> xs \<noteq> [] \<and> (\<forall>x\<in>set xs. normalize_repair n2s x = Some x)"
proof (cases "isArray (get (Obj d) ''repairs'') \<and> 0 < length (elems (get (Obj d) ''repairs''))")
  case True
  with assms obtain ys where
    ys: "those (map (normalize_repair n2s) (elems (get (Obj d) ''repairs''))) = Some ys"
    and r: "r = Arr ys"
    by (auto simp: normalizeRepairs_def split: if_splits)
  from those_map_length [OF ys] True have "ys \<noteq> []" by auto
  moreover have "normalize_repair n2s y = Some y" if "y \<in> set ys" for y
    using those_map_set [OF ys that] normalize_repair_idem by blast
  ultimately show ?thesis using r by blast
next
  case False
  have "normalize_repair n2s (Obj [(''description'', Str ds), (''amount'', Num q)])
      = Some (Obj [(''description'', Str ds), (''amount'', Num q)])"
    if "safeNum n2s v = Some q" for ds v q
    using safeNum_finite [OF that]
    by (auto simp: normalize_repair_def get_def lookup_def coalesce_def nullish_def safeNum_Fin)
  moreover have "normalize_repair n2s (Obj [(''description'', Str []), (''amount'', Num (Fin 0))])
      = Some (Obj [(''description'', Str []), (''amount'', Num (Fin 0))])"
    by (simp add: normalize_repair_def get_def lookup_def coalesce_def nullish_def safeNum_Fin)
  ultimately show ?thesis using assms False
    by (auto simp: normalizeRepairs_def nullish_def split: if_splits Option.bind_splits)
qed

lemma normalizeRepairs_fixed:
  assumes "lookup d ''repairs'' = Arr xs" "xs \<noteq> []" "\<forall>x\<in>set xs. normalize_repair n2s x = Some x"
  shows "normalizeRepairs n2s (Obj d) = Some (Arr xs)"
proof -
  from assms(3) have "those (map (normalize_repair n2s) xs) = Some xs" by (simp add: those_map_id)
  with assms(1,2) show ?thesis
    by (simp add: normalizeRepairs_def nullish_def get_Obj isArray_def elems_def)
qed

lemma normalizeAdditionalItems_fixed:
  assumes "lookup d ''additionalItems'' = Arr xs" "xs \<noteq> []"
    and "\<forall>x\<in>set xs. normalize_item n2s (or_js (lookup d ''cleaningFrequency'') (Str [])) x = Some x"
  shows "normalizeAdditionalItems n2s (Obj d) = Some (Arr xs)"
proof -
  let ?D = "or_js (lookup d ''cleaningFrequency'') (Str [])"
  from assms(3) have "those (map (normalize_item n2s ?D) xs) = Some xs" by (simp add: those_map_id)
  with assms(1,2) show ?thesis
    by (simp add: normalizeAdditionalItems_def Let_def nullish_def get_Obj isArray_def elems_def)
qed

text \<open>The frequency that the legacy tier gives to an item.\<close>

lemma legacy_frequency:
  assumes "plain_frequency a" "plain_frequency cf" "or_js cf (Str []) = Str s"
  shows "\<exists>t. or_js (or_js a cf) (Str s) = Str t \<and> trim t = t \<and> (t = [] \<longrightarrow> s = [])"
proof (cases "truthy a")
  case True
  from plain_truthy [OF assms(1) True] show ?thesis
    by (auto simp: or_js_def truthy_def)
next
  case False
  show ?thesis
  proof (cases "truthy cf")
    case True
    from plain_truthy [OF assms(2) True] False assms(3) show ?thesis
      by (auto simp: or_js_def truthy_def)
  next
    case cf: False
    with False assms(3) show ?thesis
      by (auto simp: or_js_def truthy_def trim_Nil)
  qed
qed

lemma normalizeAdditionalItems_out:
  assumes norm: "normalizeAdditionalItems n2s (Obj d) = Some r"
    and cf: "plain_frequency (lookup d ''cleaningFrequency'')"
    and af: "plain_frequency (lookup d ''additionalFrequency'')"
  shows "\<exists>xs. r = Arr xs \<and> xs \<noteq> []
    \<and> (\<forall>x\<in>set xs. normalize_item n2s (or_js (lookup d ''cleaningFrequency'') (Str [])) x = Some x)"
proof -
  let ?cf = "lookup d ''cleaningFrequency''" and ?af = "lookup d ''additionalFrequency''"
  let ?D = "or_js ?cf (Str [])"
  from plain_default [OF cf] obtain s where D: "?D = Str s" and s: "trim s = s" by blast
  show ?thesis
  proof (cases "isArray (get (Obj d) ''additionalItems'')
      \<and> 0 < length (elems (get (Obj d) ''additionalItems''))")
    case True
    with norm obtain ys where
      ys: "those (map (normalize_item n2s (Str s)) (elems (get (Obj d) ''additionalItems''))) = Some ys"
      and r: "r = Arr ys"
      using D by (auto simp: normalizeAdditionalItems_def Let_def get_Obj split: if_splits)
    from those_map_length [OF ys] True have "ys \<noteq> []" by auto
    moreover have "normalize_item n2s (Str s) y = Some y" if "y \<in> set ys" for y
      using those_map_set [OF ys that] normalize_item_idem [OF s] by blast
    ultimately show ?thesis using r D by auto
  next
    case False
    from legacy_frequency [OF af cf D] obtain t where
      t: "or_js (or_js ?af ?cf) (Str s) = Str t" "trim t = t" "t = [] \<longrightarrow> s = []"
      by blast
    have leg: "normalize_item n2s (Str s) (Obj [(''description'', Str ds), (''qty'', Num q),
          (''rate'', Num r), (''frequency'', Str t)])
        = Some (Obj [(''description'', Str ds), (''qty'', Num q),
          (''rate'', Num r), (''frequency'', Str t)])"
      if "safeNum n2s qv = Some q" "orDefault n2s rv (Fin 203) = Some r"
      for ds q r qv rv
      using safeNum_finite [OF that(1)] orDefault_finite [OF that(2)]
        normalize_item_fixed [OF s t(2,3)]
      by auto
    have ph: "normalize_item n2s (Str s) (Obj [(''description'', Str ds), (''qty'', Num (Fin 0)),
          (''rate'', Num (Fin 203)), (''frequency'', Str s)])
        = Some (Obj [(''description'', Str ds), (''qty'', Num (Fin 0)),
          (''rate'', Num (Fin 203)), (''frequency'', Str s)])" for ds
      by (rule normalize_item_fixed [OF s s]) simp
    from norm False show ?thesis
      unfolding normalizeAdditionalItems_def Let_def get_Obj D t(1) default_rate_hood default_rate_fan
      by (auto simp: nullish_def leg ph split: if_splits Option.bind_splits)
  qed
qed


lemma map_of_put: "map_of (put d k v) k' = (if k' = k then Some v else map_of d k')"
  by (simp add: put_def update_conv)

lemma put_same: "map_of d k = Some v \<Longrightarrow> put d k v = d"
  by (simp add: put_def update_triv)

lemma map_of_clamp_initial_other:
  "clamp_initial n2s d k = Some e \<Longrightarrow> k' \<noteq> k \<Longrightarrow> map_of e k' = map_of d k'"
  by (auto simp: clamp_initial_def map_of_put split: if_splits Option.bind_splits)

lemma fill_default_id:
  "\<not> nullish (lookup d k) \<Longrightarrow> lookup d k \<noteq> Str [] \<Longrightarrow> fill_default d k = d"
  by (simp add: fill_default_def)

text \<open>\<open>clamp_initial\<close> reads the draft at its key only, and its result passes its test.\<close>

lemma clamp_initial_id:
  "\<not> nullish (lookup d k) \<Longrightarrow> ToNumber n2s (lookup d k) = Some n \<Longrightarrow> \<not> lt n (Fin 1) \<Longrightarrow>
   clamp_initial n2s d k = Some d"
  by (simp add: clamp_initial_def)

lemma clamp_initial_settled:
  assumes "clamp_initial n2s d k = Some e"
  shows "\<not> nullish (lookup e k) \<and> (\<exists>n. ToNumber n2s (lookup e k) = Some n \<and> \<not> lt n (Fin 1))"
proof (cases "nullish (lookup d k)")
  case True
  with assms have "e = put d k (Num (Fin 1))" by (simp add: clamp_initial_def)
  then show ?thesis by (simp add: lookup_put nullish_def ToNumber_def)
next
  case False
  with assms obtain n where n: "ToNumber n2s (lookup d k) = Some n"
    and e: "e = (if lt n (Fin 1) then put d k (Num (Fin 1)) else d)"
    by (auto simp: clamp_initial_def split: Option.bind_splits)
  show ?thesis
  proof (cases "lt n (Fin 1)")
    case True
    with e show ?thesis by (simp add: lookup_put nullish_def ToNumber_def)
  next
    case lt: False
    with e n False show ?thesis by simp
  qed
qed

lemma default_rates_set:
  "k \<in> set rate_fields \<Longrightarrow> \<not> nullish (lookup DEFAULT_RATES k) \<and> lookup DEFAULT_RATES k \<noteq> Str []"
  by (auto simp: rate_fields_def DEFAULT_RATES_def lookup_def nullish_def)

lemma fill_rates_settled:
  "k \<in> set rate_fields \<Longrightarrow>
   \<not> nullish (lookup (fill_rates d) k) \<and> lookup (fill_rates d) k \<noteq> Str []"
  using default_rates_set [of k] by (simp add: lookup_fill_rates)

lemma fill_rates_id:
  assumes "\<And>k. k \<in> set rate_fields \<Longrightarrow> \<not> nullish (lookup e k) \<and> lookup e k \<noteq> Str []"
  shows "fill_rates e = e"
proof -
  have "foldl fill_default e ks = e" if "set ks \<subseteq> set rate_fields" for ks
    using that
  proof (induction ks)
    case Nil
    then show ?case by simp
  next
    case (Cons k ks)
    then have "fill_default e k = e" using assms [of k] by (simp add: fill_default_id)
    with Cons show ?case by simp
  qed
  then show ?thesis by (simp add: fill_rates_def)
qed

lemma applyDefaults_idempotent_Obj:
  assumes cf: "plain_frequency (lookup d ''cleaningFrequency'')"
    and af: "plain_frequency (lookup d ''additionalFrequency'')"
    and first: "applyDefaults n2s (Obj d) = Some x"
  shows "applyDefaults n2s x = Some x"
proof -
  from applyDefaults_SomeD [OF first] obtain r a d9 e where
    r: "normalizeRepairs n2s (Obj (fill_rates d)) = Some r"
    and a: "normalizeAdditionalItems n2s (Obj (put (fill_rates d) ''repairs'' r)) = Some a"
    and d9: "clamp_initial n2s (put (put (fill_rates d) ''repairs'' r) ''additionalItems'' a)
        ''initialHoodQty'' = Some d9"
    and e: "clamp_initial n2s d9 ''initialFanQty'' = Some e"
    and x: "x = Obj e"
    by blast
  define d7 where "d7 = put (fill_rates d) ''repairs'' r"
  define d8 where "d8 = put d7 ''additionalItems'' a"
  note d9' = d9 [folded d7_def, folded d8_def]
  have l9: "lookup d9 k = lookup d8 k" if "k \<noteq> ''initialHoodQty''" for k
    using lookup_clamp_initial_other [OF d9' that] .
  have le: "lookup e k = lookup d9 k" if "k \<noteq> ''initialFanQty''" for k
    using lookup_clamp_initial_other [OF e that] .
  have keep: "lookup e k = lookup (fill_rates d) k"
    if "k \<noteq> ''repairs''" "k \<noteq> ''additionalItems''" "k \<noteq> ''initialHoodQty''" "k \<noteq> ''initialFanQty''"
    for k
    using that by (simp add: le l9 d8_def d7_def lookup_put)
  have rates: "\<not> nullish (lookup e k) \<and> lookup e k \<noteq> Str []" if "k \<in> set rate_fields" for k
  proof -
    from that have "lookup e k = lookup (fill_rates d) k"
      by (intro keep) (auto simp: rate_fields_def)
    with fill_rates_settled [OF that, of d] show ?thesis by simp
  qed
  then have fe: "fill_rates e = e" by (rule fill_rates_id)
  from normalizeRepairs_out [OF r] obtain rs where rs: "r = Arr rs" "rs \<noteq> []"
    "\<forall>x\<in>set rs. normalize_repair n2s x = Some x" by blast
  have "lookup e ''repairs'' = Arr rs"
    by (simp add: le l9 d8_def d7_def lookup_put rs(1))
  with rs have r2: "normalizeRepairs n2s (Obj e) = Some r"
    by (simp add: normalizeRepairs_fixed)
  have "map_of e ''repairs'' = map_of d9 ''repairs''"
    by (rule map_of_clamp_initial_other [OF e]) simp
  also have "\<dots> = map_of d8 ''repairs''"
    by (rule map_of_clamp_initial_other [OF d9']) simp
  finally have "map_of e ''repairs'' = Some r"
    by (simp add: d8_def d7_def map_of_put)
  then have pr: "put e ''repairs'' r = e" by (rule put_same)
  have cf7: "lookup d7 ''cleaningFrequency'' = lookup d ''cleaningFrequency''"
    and af7: "lookup d7 ''additionalFrequency'' = lookup d ''additionalFrequency''"
    by (simp_all add: d7_def lookup_put lookup_fill_rates rate_fields_def)
  from a have a7: "normalizeAdditionalItems n2s (Obj d7) = Some a" by (simp add: d7_def)
  from normalizeAdditionalItems_out [OF a7] cf af cf7 af7 obtain xs where xs: "a = Arr xs" "xs \<noteq> []"
    "\<forall>x\<in>set xs. normalize_item n2s (or_js (lookup d ''cleaningFrequency'') (Str [])) x = Some x"
    by auto
  have "lookup e ''cleaningFrequency'' = lookup d ''cleaningFrequency''"
    by (simp add: keep lookup_fill_rates rate_fields_def)
  moreover have "lookup e ''additionalItems'' = Arr xs"
    by (simp add: le l9 d8_def lookup_put xs(1))
  ultimately have a2: "normalizeAdditionalItems n2s (Obj e) = Some a"
    using xs by (simp add: normalizeAdditionalItems_fixed)
  have "map_of e ''additionalItems'' = map_of d9 ''additionalItems''"
    by (rule map_of_clamp_initial_other [OF e]) simp
  also have "\<dots> = map_of d8 ''additionalItems''"
    by (rule map_of_clamp_initial_other [OF d9']) simp
  finally have "map_of e ''additionalItems'' = Some a"
    by (simp add: d8_def map_of_put)
  then have pa: "put e ''additionalItems'' a = e" by (rule put_same)
  have "lookup e ''initialHoodQty'' = lookup d9 ''initialHoodQty''"
    by (rule le) simp
  with clamp_initial_settled [OF d9']
  have ch: "clamp_initial n2s e ''initialHoodQty'' = Some e"
    by (auto intro: clamp_initial_id)
  from clamp_initial_settled [OF e]
  have cn: "clamp_initial n2s e ''initialFanQty'' = Some e"
    by (auto intro: clamp_initial_id)
  show ?thesis
    unfolding x applyDefaults_Obj by (simp add: fe r2 pr a2 pa ch cn)
qed

lemma applyDefaults_entries:
  "is_object d \<Longrightarrow> applyDefaults n2s d = applyDefaults n2s (Obj (entries d))"
  by (cases d) (simp_all add: is_object_def applyDefaults_def truthy_def typeof_def entries_def)

lemma convertible_entries: "convertible d \<Longrightarrow> convertible (lookup (entries d) k)"
proof (cases d)
  case (Arr xs)
  assume c: "convertible d"
  show ?thesis
  proof (cases "map_of (indexed xs) k")
    case None
    with Arr show ?thesis by (simp add: entries_def lookup_def)
  next
    case (Some v)
    then have "v \<in> set xs"
      unfolding indexed_def by (meson map_of_SomeD set_zip_rightD)
    with c Arr Some show ?thesis by (simp add: entries_def lookup_def)
  qed
next
  case (Str s)
  show ?thesis
  proof (cases "map_of (indexed (map (\<lambda>c. Str [c]) s)) k")
    case None
    with Str show ?thesis by (simp add: entries_def lookup_def)
  next
    case (Some v)
    then have "v \<in> set (map (\<lambda>c. Str [c]) s)"
      unfolding indexed_def by (meson map_of_SomeD set_zip_rightD)
    with Str Some show ?thesis by (auto simp: entries_def lookup_def)
  qed
next
  case (Obj kvs)
  assume "convertible d"
  with Obj convertible_lookup [of kvs k] show ?thesis by (simp add: entries_def)
qed (simp_all add: entries_def lookup_def)

lemma applyDefaults_not_object:
  assumes "\<not> is_object v"
  shows "applyDefaults n2s v = Some (Obj DEFAULT_RATES)"
proof -
  from assms have "\<not> truthy v \<or> typeof v \<noteq> ''object''"
    by (cases v) (simp_all add: is_object_def truthy_def typeof_def)
  then show ?thesis
    by (simp add: applyDefaults_def entries_def)
qed

lemma applyDefaults_DEFAULT_RATES:
  "applyDefaults n2s (Obj DEFAULT_RATES) = Some (Obj defaults_completed)"
proof -
  have f: "fill_rates DEFAULT_RATES = DEFAULT_RATES"
    by (rule fill_rates_id) (rule default_rates_set)
  have l: "lookup DEFAULT_RATES k = Undefined" if "k \<notin> set rate_fields" for k
    using that by (simp add: DEFAULT_RATES_def rate_fields_def lookup_def)
  have r: "normalizeRepairs n2s (Obj DEFAULT_RATES) =
      Some (Arr [Obj [(''description'', Str []), (''amount'', Num (Fin 0))]])"
    by (simp add: normalizeRepairs_def get_Obj l rate_fields_def nullish_def isArray_def)
  let ?r = "Arr [Obj [(''description'', Str []), (''amount'', Num (Fin 0))]]"
  let ?a = "Arr [Obj [(''description'', Str ''Additional Hood''), (''qty'', Num (Fin 0)),
               (''rate'', Num (Fin 203)), (''frequency'', Str [])],
             Obj [(''description'', Str ''Additional Fan''), (''qty'', Num (Fin 0)),
               (''rate'', Num (Fin 203)), (''frequency'', Str [])]]"
  have v: "lookup DEFAULT_RATES ''additionalHoodRate'' = Num (Fin 203)"
    "lookup DEFAULT_RATES ''additionalFanRate'' = Num (Fin 203)"
    by (simp_all add: DEFAULT_RATES_def lookup_def)
  have s0: "safeNum n2s Undefined = Some (Fin 0)"
    by (simp add: safeNum_def ToNumber_def)
  have a: "normalizeAdditionalItems n2s (Obj (put DEFAULT_RATES ''repairs'' ?r)) = Some ?a"
    by (simp add: normalizeAdditionalItems_def Let_def get_Obj lookup_put l v s0 orDefault_Fin
        rate_fields_def nullish_def isArray_def or_js_def truthy_def)
  let ?d8 = "put (put DEFAULT_RATES ''repairs'' ?r) ''additionalItems'' ?a"
  have h: "clamp_initial n2s ?d8 ''initialHoodQty'' = Some (put ?d8 ''initialHoodQty'' (Num (Fin 1)))"
    by (simp add: clamp_initial_def lookup_put l rate_fields_def nullish_def)
  have n: "clamp_initial n2s (put ?d8 ''initialHoodQty'' (Num (Fin 1))) ''initialFanQty'' =
      Some (put (put ?d8 ''initialHoodQty'' (Num (Fin 1))) ''initialFanQty'' (Num (Fin 1)))"
    by (simp add: clamp_initial_def lookup_put l rate_fields_def nullish_def)
  have "put (put ?d8 ''initialHoodQty'' (Num (Fin 1))) ''initialFanQty'' (Num (Fin 1))
      = defaults_completed"
    by (simp add: defaults_completed_def DEFAULT_RATES_def put_def)
  with n h a r show ?thesis
    unfolding applyDefaults_Obj f by simp
qed


text \<open>
  C4, as the code has it. \<open>applyDefaults\<close> is idempotent on every object (or array) whose
  \<open>cleaningFrequency\<close> and \<open>additionalFrequency\<close> are each missing, falsy or a string
  without surrounding white space: whenever it returns a draft, applying it to that draft
  returns the same draft, and it returns when no object in the input has an own property
  named \<open>toString\<close>. Legacy-shaped and already normalized drafts are among these inputs.
  On an input that is not an object, \<open>applyDefaults\<close> returns the copy of the six default
  rates, and applied to that copy it returns another draft: the six rates with \<open>repairs\<close>,
  \<open>additionalItems\<close>, \<open>initialHoodQty\<close> and \<open>initialFanQty\<close> added.
\<close>

theorem applyDefaults_idempotent:
  "(is_object d \<and> plain_frequency (lookup (entries d) ''cleaningFrequency'')
      \<and> plain_frequency (lookup (entries d) ''additionalFrequency'')
    \<longrightarrow> (\<forall>r. applyDefaults n2s d = Some r \<longrightarrow> applyDefaults n2s r = Some r)
      \<and> (convertible d \<longrightarrow> (\<exists>r. applyDefaults n2s d = Some r)))
   \<and> (\<not> is_object d
    \<longrightarrow> applyDefaults n2s d = Some (Obj DEFAULT_RATES)
      \<and> applyDefaults n2s (Obj DEFAULT_RATES) = Some (Obj defaults_completed)
      \<and> Obj defaults_completed \<noteq> Obj DEFAULT_RATES)"
proof (intro conjI impI allI)
  fix r
  assume h: "is_object d \<and> plain_frequency (lookup (entries d) ''cleaningFrequency'')
      \<and> plain_frequency (lookup (entries d) ''additionalFrequency'')"
    and r: "applyDefaults n2s d = Some r"
  from h r have "applyDefaults n2s (Obj (entries d)) = Some r"
    by (simp add: applyDefaults_entries)
  with h show "applyDefaults n2s r = Some r"
    by (intro applyDefaults_idempotent_Obj [of "entries d"]) simp_all
next
  assume h: "is_object d \<and> plain_frequency (lookup (entries d) ''cleaningFrequency'')
      \<and> plain_frequency (lookup (entries d) ''additionalFrequency'')"
    and c: "convertible d"
  from c have "convertible (lookup (entries d) k)" for k by (rule convertible_entries)
  then have "\<exists>x. applyDefaults n2s (Obj (entries d)) = Some x" by (rule applyDefaults_returns)
  with h show "\<exists>r. applyDefaults n2s d = Some r" by (simp add: applyDefaults_entries)
next
  assume "\<not> is_object d"
  then show "applyDefaults n2s d = Some (Obj DEFAULT_RATES)" by (rule applyDefaults_not_object)
next
  show "applyDefaults n2s (Obj DEFAULT_RATES) = Some (Obj defaults_completed)"
    by (rule applyDefaults_DEFAULT_RATES)
next
  show "Obj defaults_completed \<noteq> Obj DEFAULT_RATES"
    by (simp add: defaults_completed_def)
qed

theorem applyDefaults_idempotent_witness:
  "is_object monthly_draft
   \<and> plain_frequency (lookup (entries monthly_draft) ''cleaningFrequency'')
   \<and> plain_frequency (lookup (entries monthly_draft) ''additionalFrequency'')
   \<and> convertible monthly_draft
   \<and> applyDefaults n2s0 monthly_draft \<noteq> None
   \<and> Option.bind (applyDefaults n2s0 monthly_draft) (applyDefaults n2s0)
       = applyDefaults n2s0 monthly_draft
   \<and> \<not> is_object Null
   \<and> applyDefaults n2s0 Null = Some (Obj DEFAULT_RATES)"
proof -
  have h: "is_object monthly_draft"
    "plain_frequency (lookup (entries monthly_draft) ''cleaningFrequency'')"
    "plain_frequency (lookup (entries monthly_draft) ''additionalFrequency'')"
    "convertible monthly_draft"
    by (simp_all add: monthly_draft_def is_object_def plain_frequency_def entries_def lookup_def
        truthy_def has_key_def str_eval)
  have n: "\<not> is_object Null" by (simp add: is_object_def)
  from applyDefaults_idempotent [of monthly_draft n2s0] applyDefaults_idempotent [of Null n2s0] h n
  show ?thesis by auto
qed

text \<open>
  C4, as stated, fails on an input that is not an object: \<open>applyDefaults(null)\<close> is the
  copy of the six default rates, and applying \<open>applyDefaults\<close> to that object adds
  \<open>repairs\<close>, \<open>additionalItems\<close>, \<open>initialHoodQty\<close> and \<open>initialFanQty\<close>.
\<close>

theorem applyDefaults_idempotent_counterexample:
  "applyDefaults n2s0 Null = Some (Obj DEFAULT_RATES)
   \<and> applyDefaults n2s0 (Obj DEFAULT_RATES) = Some (Obj defaults_completed)
   \<and> Option.bind (applyDefaults n2s0 Null) (applyDefaults n2s0) \<noteq> applyDefaults n2s0 Null"
proof -
  have 1: "applyDefaults n2s0 Null = Some (Obj DEFAULT_RATES)"
    by (rule applyDefaults_not_object) (simp add: is_object_def)
  have 2: "applyDefaults n2s0 (Obj DEFAULT_RATES) = Some (Obj defaults_completed)"
    by (rule applyDefaults_DEFAULT_RATES)
  have "defaults_completed \<noteq> DEFAULT_RATES" by (simp add: defaults_completed_def)
  with 1 2 show ?thesis by simp
qed

text \<open>
  The condition on the frequencies is needed: an item whose frequency is empty takes the
  draft's cleaning frequency as it is, and a second pass trims it.
\<close>

lemma applyDefaults_untrimmed_frequency:
  "applyDefaults n2s (Obj untrimmed_draft) = Some (Obj untrimmed_once)
   \<and> applyDefaults n2s (Obj untrimmed_once) = Some (Obj untrimmed_twice)
   \<and> untrimmed_twice \<noteq> untrimmed_once"
proof -
  have s0: "safeNum n2s Undefined = Some (Fin 0)"
    by (simp add: safeNum_def ToNumber_def)
  have o0: "orDefault n2s Undefined (Fin 203) = Some (Fin 203)"
    by (simp add: orDefault_def ToNumber_def)
  have t1: "trim '' Monthly '' = ''Monthly''" "trim ''Monthly'' = ''Monthly''"
    by (simp_all add: str_eval)
  have f1: "fill_rates untrimmed_draft = untrimmed_draft @ DEFAULT_RATES"
    by (simp add: fill_rates_def rate_fields_def fill_default_def untrimmed_draft_def lookup_def
        nullish_def put_def DEFAULT_RATES_def)
  have f2: "fill_rates untrimmed_once = untrimmed_once"
    by (rule fill_rates_id)
      (auto simp: rate_fields_def untrimmed_once_def lookup_def nullish_def)
  let ?r = "Arr [Obj [(''description'', Str []), (''amount'', Num (Fin 0))]]"
  have r1: "normalizeRepairs n2s (Obj (untrimmed_draft @ DEFAULT_RATES)) = Some ?r"
    by (simp add: normalizeRepairs_def untrimmed_draft_def DEFAULT_RATES_def val_eval)
  have r2: "normalizeRepairs n2s (Obj untrimmed_once) = Some ?r"
    by (simp add: normalizeRepairs_def normalize_repair_def untrimmed_once_def safeNum_Fin
        val_eval)
  have a1: "normalizeAdditionalItems n2s (Obj (put (untrimmed_draft @ DEFAULT_RATES) ''repairs'' ?r))
      = Some (lookup untrimmed_once ''additionalItems'')"
    by (simp add: normalizeAdditionalItems_def normalize_item_def untrimmed_draft_def
        untrimmed_once_def DEFAULT_RATES_def s0 o0 default_rate_hood trim_Nil Let_def
        lookup_def get_def put_def nullish_def truthy_def or_js_def coalesce_def isArray_def
        elems_def)
  have a2: "normalizeAdditionalItems n2s (Obj (put untrimmed_once ''repairs'' ?r))
      = Some (lookup untrimmed_twice ''additionalItems'')"
    by (simp add: normalizeAdditionalItems_def normalize_item_def
        untrimmed_once_def untrimmed_twice_def safeNum_Fin orDefault_Fin t1 Let_def
        lookup_def get_def put_def nullish_def truthy_def or_js_def coalesce_def isArray_def
        elems_def)
  have 1: "applyDefaults n2s (Obj untrimmed_draft) = Some (Obj untrimmed_once)"
    unfolding applyDefaults_Obj f1 r1
    by (simp add: a1)
      (simp add: clamp_initial_def untrimmed_draft_def untrimmed_once_def DEFAULT_RATES_def
        lookup_def put_def nullish_def)
  have 2: "applyDefaults n2s (Obj untrimmed_once) = Some (Obj untrimmed_twice)"
    unfolding applyDefaults_Obj f2 r2
    by (simp add: a2)
      (simp add: clamp_initial_def untrimmed_once_def untrimmed_twice_def
        lookup_def put_def nullish_def ToNumber_def num_eval)
  have "untrimmed_twice \<noteq> untrimmed_once"
    by (simp add: untrimmed_once_def untrimmed_twice_def)
  with 1 2 show ?thesis by simp
qed

section \<open>Derived quantities of the inspection form\<close>

lemma normalize_item_shape:
  assumes "normalize_item n2s D a = Some y"
  shows "is_item y"
proof -
  from assms obtain ds q r f where
    q: "safeNum n2s (get a ''qty'') = Some q"
    and r: "orDefault n2s (get a ''rate'') (Fin 203) = Some r"
    and y: "y = Obj [(''description'', Str ds), (''qty'', Num q), (''rate'', Num r), (''frequency'', f)]"
    by (auto simp: normalize_item_def default_rate_hood split: Option.bind_splits)
  from safeNum_finite [OF q] orDefault_finite [OF r] y show ?thesis
    by (auto simp: is_item_def)
qed

lemma normalizeAdditionalItems_shape:
  assumes "normalizeAdditionalItems n2s d = Some a"
  shows "\<exists>xs. a = Arr xs \<and> xs \<noteq> [] \<and> list_all is_item xs"
proof (cases "isArray (get d ''additionalItems'') \<and> 0 < length (elems (get d ''additionalItems''))")
  case True
  with assms obtain ys where
    ys: "those (map (normalize_item n2s (or_js (get d ''cleaningFrequency'') (Str [])))
           (elems (get d ''additionalItems''))) = Some ys"
    and a: "a = Arr ys"
    by (auto simp: normalizeAdditionalItems_def Let_def split: if_splits)
  from those_map_length [OF ys] True have "ys \<noteq> []" by auto
  moreover have "is_item y" if "y \<in> set ys" for y
    using those_map_set [OF ys that] normalize_item_shape by blast
  ultimately show ?thesis using a by (auto simp: list_all_iff)
next
  case False
  have "is_item (Obj [(''description'', Str ds), (''qty'', Num q),
      (''rate'', Num r), (''frequency'', f)])"
    if "safeNum n2s qv = Some q" "orDefault n2s rv (Fin 203) = Some r" for ds q r f qv rv
    using safeNum_finite [OF that(1)] orDefault_finite [OF that(2)]
    by (auto simp: is_item_def)
  moreover have "is_item (Obj [(''description'', Str ds), (''qty'', Num (Fin 0)),
      (''rate'', Num (Fin 203)), (''frequency'', f)])" for ds f
    by (auto simp: is_item_def)
  ultimately show ?thesis using assms False
    unfolding normalizeAdditionalItems_def Let_def default_rate_hood default_rate_fan
    by (auto split: if_splits Option.bind_splits)
qed















lemmas form_eval = count_effect_def derive_items_def normalizeAdditionalItems_def
  normalize_item_def named_def item_qty_def fire_def handle_def deps_def fresh_frequency_def
  onStorage_def storage_items_def storage_repairs_def initial_state_def touched_state_def
  mounted_def




text \<open>
  The error path: a storage event with the value \<open>{cleaningFrequency: {toString: 1}}\<close>
  makes that object the frequency of both items, and the effect of the next count change
  throws when it converts the frequency to a string.
\<close>

lemma count_effect_throws:
  "run n2s [Storage (Obj [(''cleaningFrequency'', toString_object)])] initial_state \<noteq> None
   \<and> run n2s [Storage (Obj [(''cleaningFrequency'', toString_object)]), SetHoods 5] initial_state = None"
  by (simp add: form_eval toString_object_def has_key_def Let_def num_eval val_eval draft_eval str_eval)

section \<open>Finiteness of the totals\<close>

lemma sum_unit_powi: "sum_unit = 2 powi 960"
  by (simp add: sum_unit_def power_int_def)

lemma operand_bound_sq: "operand_bound * operand_bound = sum_unit"
  unfolding operand_bound_def sum_unit_def power_add [symmetric] by simp

lemma operand_bound_pos: "0 < operand_bound" "0 < sum_unit" "operand_bound \<le> sum_unit"
  "1 \<le> operand_bound"
  unfolding operand_bound_def sum_unit_def
  by (simp_all add: power_increasing)

lemma mag_le_mono: "mag_le x b \<Longrightarrow> b \<le> c \<Longrightarrow> mag_le x c"
  by (cases x) (simp_all add: mag_le_def)

lemma mag_le_finite: "mag_le x b \<Longrightarrow> isFinite x"
  by (cases x) (simp_all add: mag_le_def)

lemma sum_range: "i < 2 ^ 53 \<Longrightarrow> of_nat i * sum_unit < (2::rat) ^ 1024"
proof -
  assume "i < 2 ^ 53"
  then have "(of_nat i :: rat) < 2 ^ 53"
    by (metis of_nat_less_iff of_nat_numeral of_nat_power)
  then have "of_nat i * sum_unit < 2 ^ 53 * sum_unit"
    using operand_bound_pos(2) by (simp only: mult_less_cancel_right_pos)
  also have "\<dots> = (2::rat) ^ 1013"
    unfolding sum_unit_def power_add [symmetric] by simp
  also have "\<dots> < 2 ^ 1024"
    by (rule power_strict_increasing) simp_all
  finally show ?thesis .
qed

lemma rnd_sum_unit:
  assumes "\<bar>x\<bar> \<le> of_nat i * sum_unit" and "i < 2 ^ 53"
  shows "mag_le (rnd x) (of_nat i * sum_unit)"
proof -
  have b: "\<bar>x\<bar> \<le> of_nat i * 2 powi 960"
    using assms(1) unfolding sum_unit_powi .
  have r: "of_nat i * 2 powi 960 < (2::rat) ^ 1024"
    using sum_range [OF assms(2)] unfolding sum_unit_powi .
  have p: "- 1074 \<le> (960::int)" by simp
  from rnd_bounded [OF b assms(2) p r] obtain v where
    "rnd x = Fin v" "\<bar>v\<bar> \<le> of_nat i * 2 powi 960" by blast
  then show ?thesis
    unfolding sum_unit_powi mag_le_def by simp
qed

lemma mag_le_mul:
  assumes "mag_le a operand_bound" and "mag_le b operand_bound"
  shows "mag_le (mul a b) sum_unit"
proof -
  from assms obtain x y where a: "a = Fin x" and b: "b = Fin y"
    and x: "\<bar>x\<bar> \<le> operand_bound" and y: "\<bar>y\<bar> \<le> operand_bound"
    by (cases a; cases b) (simp_all add: mag_le_def)
  have "\<bar>x * y\<bar> = \<bar>x\<bar> * \<bar>y\<bar>" by (rule abs_mult)
  also have "\<dots> \<le> operand_bound * operand_bound"
    by (rule mult_mono) (use x y operand_bound_pos in simp_all)
  finally have "\<bar>x * y\<bar> \<le> of_nat 1 * sum_unit"
    by (simp add: operand_bound_sq)
  from rnd_sum_unit [OF this] show ?thesis
    by (simp add: a b mul_def)
qed

lemma mag_le_add:
  assumes "mag_le a (of_nat i * sum_unit)" and "mag_le b (of_nat j * sum_unit)"
    and "i + j < 2 ^ 53"
  shows "mag_le (add a b) (of_nat (i + j) * sum_unit)"
proof -
  from assms obtain x y where a: "a = Fin x" and b: "b = Fin y"
    and x: "\<bar>x\<bar> \<le> of_nat i * sum_unit" and y: "\<bar>y\<bar> \<le> of_nat j * sum_unit"
    by (cases a; cases b) (simp_all add: mag_le_def)
  have "\<bar>x + y\<bar> \<le> \<bar>x\<bar> + \<bar>y\<bar>" by (rule abs_triangle_ineq)
  also have "\<dots> \<le> of_nat i * sum_unit + of_nat j * sum_unit"
    using x y by (rule add_mono)
  also have "\<dots> = of_nat (i + j) * sum_unit"
    by (simp add: distrib_right)
  finally have "\<bar>x + y\<bar> \<le> of_nat (i + j) * sum_unit" .
  from rnd_sum_unit [OF this assms(3)] show ?thesis
    by (simp add: a b)
qed

lemma mag_le_zero: "mag_le (Fin 0) (of_nat i * sum_unit)"
  using operand_bound_pos(2) by (simp add: mag_le_def)

lemma mag_le_unit: "mag_le x operand_bound \<Longrightarrow> mag_le x (of_nat 1 * sum_unit)"
  using operand_bound_pos(3) by (simp add: mag_le_mono)

lemma safeNum_range:
  assumes "safeNum n2s v = Some q" and "in_range n2s v"
  shows "mag_le q operand_bound"
proof -
  from assms(1) obtain x where x: "ToNumber n2s v = Some x"
    and q: "q = (if isFinite x then x else Fin 0)"
    by (auto simp: safeNum_def split: Option.bind_splits)
  show ?thesis
  proof (cases x)
    case (Fin r)
    with assms(2) x q show ?thesis by (simp add: in_range_def mag_le_def)
  qed (use q operand_bound_pos in \<open>simp_all add: mag_le_def\<close>)
qed

lemma orDefault_range:
  assumes "orDefault n2s v dflt = Some q" and "in_range n2s v" and "mag_le dflt operand_bound"
  shows "mag_le q operand_bound"
proof -
  from assms(1) obtain x where x: "ToNumber n2s v = Some x"
    and q: "q = (if isFinite x then x else dflt)"
    by (auto simp: orDefault_def split: Option.bind_splits)
  show ?thesis
  proof (cases x)
    case (Fin r)
    with assms(2) x q show ?thesis by (simp add: in_range_def mag_le_def)
  qed (use q assms(3) in simp_all)
qed

lemma default_rate_range: "k \<in> set rate_fields \<Longrightarrow> mag_le (default_rate k) operand_bound"
proof -
  assume k: "k \<in> set rate_fields"
  have "(2::rat) ^ 10 \<le> 2 ^ 480" by (rule power_increasing) simp_all
  then have b: "(1024::rat) \<le> operand_bound" by (simp add: operand_bound_def)
  have "default_rate k \<in> {Fin 723, Fin 203, Fin 8, Fin (27 / 2), Fin 46}"
    using k by (auto simp: rate_fields_def default_rate_def DEFAULT_RATES_def lookup_def)
  moreover have "mag_le (Fin r) operand_bound" if "\<bar>r\<bar> \<le> 1024" for r
    using that b by (simp add: mag_le_def)
  ultimately show ?thesis by auto
qed


lemma reduce_items_bounded:
  assumes "reduce_items n2s acc items = Some r"
    and "mag_le acc (of_nat i * sum_unit)"
    and "\<forall>a \<in> set items. in_range n2s (get a ''qty'') \<and> in_range n2s (get a ''rate'')"
    and "i + length items < 2 ^ 53"
  shows "mag_le r (of_nat (i + length items) * sum_unit)"
  using assms
proof (induction items arbitrary: acc i)
  case Nil
  then show ?case by simp
next
  case (Cons a as)
  from Cons.prems(1) obtain q p where
    q: "safeNum n2s (get a ''qty'') = Some q"
    and p: "orDefault n2s (get a ''rate'') (default_rate ''additionalHoodRate'') = Some p"
    and rest: "reduce_items n2s (add acc (mul q p)) as = Some r"
    by (auto split: if_splits Option.bind_splits)
  from Cons.prems(3) have ra: "in_range n2s (get a ''qty'')" "in_range n2s (get a ''rate'')"
    and ras: "\<forall>a \<in> set as. in_range n2s (get a ''qty'') \<and> in_range n2s (get a ''rate'')"
    by simp_all
  have "mag_le (default_rate ''additionalHoodRate'') operand_bound"
    by (rule default_rate_range) (simp add: rate_fields_def)
  with safeNum_range [OF q ra(1)] orDefault_range [OF p ra(2)]
  have "mag_le (mul q p) (of_nat 1 * sum_unit)"
    by (simp add: mag_le_mul)
  moreover from Cons.prems(4) have l: "i + 1 < 2 ^ 53" "(i + 1) + length as < 2 ^ 53"
    by simp_all
  ultimately have "mag_le (add acc (mul q p)) (of_nat (i + 1) * sum_unit)"
    using Cons.prems(2) by (intro mag_le_add)
  from Cons.IH [OF rest this ras l(2)] show ?case by simp
qed

lemma reduce_repairs_bounded:
  assumes "reduce_repairs n2s acc rs = Some r"
    and "mag_le acc (of_nat i * sum_unit)"
    and "\<forall>a \<in> set rs. in_range n2s (get a ''amount'')"
    and "i + length rs < 2 ^ 53"
  shows "mag_le r (of_nat (i + length rs) * sum_unit)"
  using assms
proof (induction rs arbitrary: acc i)
  case Nil
  then show ?case by simp
next
  case (Cons a as)
  from Cons.prems(1) obtain q where
    q: "safeNum n2s (get a ''amount'') = Some q"
    and rest: "reduce_repairs n2s (add acc q) as = Some r"
    by (auto split: if_splits Option.bind_splits)
  from Cons.prems(3) have ra: "in_range n2s (get a ''amount'')"
    and ras: "\<forall>a \<in> set as. in_range n2s (get a ''amount'')"
    by simp_all
  from safeNum_range [OF q ra] have "mag_le q (of_nat 1 * sum_unit)"
    by (rule mag_le_unit)
  moreover from Cons.prems(4) have l: "i + 1 < 2 ^ 53" "(i + 1) + length as < 2 ^ 53"
    by simp_all
  ultimately have "mag_le (add acc q) (of_nat (i + 1) * sum_unit)"
    using Cons.prems(2) by (intro mag_le_add)
  from Cons.IH [OF rest this ras l(2)] show ?case by simp
qed

lemma computeTotals_SomeD:
  assumes "computeTotals n2s d = Some t"
  shows "\<exists>b sr nr fr items sub reps rsub sq nq.
      orDefault n2s (get d ''baseRate'') (default_rate ''baseRate'') = Some b
    \<and> orDefault n2s (get d ''stdFilterRate'') (default_rate ''stdFilterRate'') = Some sr
    \<and> orDefault n2s (get d ''nonStdFilterRate'') (default_rate ''nonStdFilterRate'') = Some nr
    \<and> orDefault n2s (get d ''fuelSurcharge'') (default_rate ''fuelSurcharge'') = Some fr
    \<and> totals_items n2s d = Some items
    \<and> reduce_items n2s (Fin 0) (elems items) = Some sub
    \<and> totals_repairs n2s d = Some reps
    \<and> reduce_repairs n2s (Fin 0) (elems reps) = Some rsub
    \<and> safeNum n2s (get d ''stdFilterQty'') = Some sq
    \<and> safeNum n2s (get d ''nonStdFilterQty'') = Some nq
    \<and> t = \<lparr>baseRate = b, addHood = sub, addFan = Fin 0, mainServiceSubtotal = add b sub,
            repairsSubtotal = rsub, filtersSubtotal = add (mul sq sr) (mul nq nr),
            fuelSubtotal = fr,
            totalPerService = add (add (add (add b sub) rsub) (add (mul sq sr) (mul nq nr))) fr\<rparr>"
  using assms unfolding computeTotals_def totals_items_def totals_repairs_def Let_def
  by (auto split: Option.bind_splits if_splits)


lemma computeTotals_in_range:
  assumes t: "computeTotals n2s d = Some t" and range: "operands_in_range n2s d"
  shows "all_finite t"
proof -
  from computeTotals_SomeD [OF t] obtain b sr nr fr items sub reps rsub sq nq where
    b: "orDefault n2s (get d ''baseRate'') (default_rate ''baseRate'') = Some b"
    and sr: "orDefault n2s (get d ''stdFilterRate'') (default_rate ''stdFilterRate'') = Some sr"
    and nr: "orDefault n2s (get d ''nonStdFilterRate'') (default_rate ''nonStdFilterRate'') = Some nr"
    and fr: "orDefault n2s (get d ''fuelSurcharge'') (default_rate ''fuelSurcharge'') = Some fr"
    and items: "totals_items n2s d = Some items"
    and sub: "reduce_items n2s (Fin 0) (elems items) = Some sub"
    and reps: "totals_repairs n2s d = Some reps"
    and rsub: "reduce_repairs n2s (Fin 0) (elems reps) = Some rsub"
    and sq: "safeNum n2s (get d ''stdFilterQty'') = Some sq"
    and nq: "safeNum n2s (get d ''nonStdFilterQty'') = Some nq"
    and tt: "t = \<lparr>baseRate = b, addHood = sub, addFan = Fin 0, mainServiceSubtotal = add b sub,
            repairsSubtotal = rsub, filtersSubtotal = add (mul sq sr) (mul nq nr),
            fuelSubtotal = fr,
            totalPerService = add (add (add (add b sub) rsub) (add (mul sq sr) (mul nq nr))) fr\<rparr>"
    by blast
  define n where "n = length (elems items)"
  define m where "m = length (elems reps)"
  from range items reps have
    r: "in_range n2s (get d ''baseRate'')" "in_range n2s (get d ''stdFilterRate'')"
      "in_range n2s (get d ''nonStdFilterRate'')" "in_range n2s (get d ''fuelSurcharge'')"
      "in_range n2s (get d ''stdFilterQty'')" "in_range n2s (get d ''nonStdFilterQty'')"
    and n: "n < 2 ^ 32" and m: "m < 2 ^ 32"
    and ri: "\<forall>a \<in> set (elems items). in_range n2s (get a ''qty'') \<and> in_range n2s (get a ''rate'')"
    and rr: "\<forall>a \<in> set (elems reps). in_range n2s (get a ''amount'')"
    by (simp_all add: operands_in_range_def n_def m_def)
  have dr: "mag_le (default_rate ''baseRate'') operand_bound"
    "mag_le (default_rate ''stdFilterRate'') operand_bound"
    "mag_le (default_rate ''nonStdFilterRate'') operand_bound"
    "mag_le (default_rate ''fuelSurcharge'') operand_bound"
    by (rule default_rate_range, simp add: rate_fields_def)+
  have b1: "mag_le b operand_bound" by (rule orDefault_range [OF b r(1) dr(1)])
  have sr1: "mag_le sr operand_bound" by (rule orDefault_range [OF sr r(2) dr(2)])
  have nr1: "mag_le nr operand_bound" by (rule orDefault_range [OF nr r(3) dr(3)])
  have fr1: "mag_le fr operand_bound" by (rule orDefault_range [OF fr r(4) dr(4)])
  have sq1: "mag_le sq operand_bound" by (rule safeNum_range [OF sq r(5)])
  have nq1: "mag_le nq operand_bound" by (rule safeNum_range [OF nq r(6)])
  from n m have small: "0 + n < 2 ^ 53" "0 + m < 2 ^ 53" "1 + n < 2 ^ 53" "1 + n + m < 2 ^ 53"
    "1 + 1 < (2::nat) ^ 53" "1 + n + m + (1 + 1) < 2 ^ 53" "1 + n + m + (1 + 1) + 1 < 2 ^ 53"
    by simp_all
  have sub1: "mag_le sub (of_nat (0 + n) * sum_unit)"
    unfolding n_def by (rule reduce_items_bounded [OF sub mag_le_zero ri]) (use small(1) n_def in simp)
  have rsub1: "mag_le rsub (of_nat (0 + m) * sum_unit)"
    unfolding m_def by (rule reduce_repairs_bounded [OF rsub mag_le_zero rr]) (use small(2) m_def in simp)
  have main1: "mag_le (add b sub) (of_nat (1 + n) * sum_unit)"
    using mag_le_add [OF mag_le_unit [OF b1] sub1] small(3) by simp
  have f1: "mag_le (add (mul sq sr) (mul nq nr)) (of_nat (1 + 1) * sum_unit)"
    by (rule mag_le_add) (use mag_le_mul sq1 sr1 nq1 nr1 small(5) in simp_all)
  have s1: "mag_le (add (add b sub) rsub) (of_nat (1 + n + m) * sum_unit)"
    using mag_le_add [OF main1 rsub1] small(4) by simp
  have s2: "mag_le (add (add (add b sub) rsub) (add (mul sq sr) (mul nq nr)))
      (of_nat (1 + n + m + (1 + 1)) * sum_unit)"
    by (rule mag_le_add [OF s1 f1 small(6)])
  have s3: "mag_le (add (add (add (add b sub) rsub) (add (mul sq sr) (mul nq nr))) fr)
      (of_nat (1 + n + m + (1 + 1) + 1) * sum_unit)"
    by (rule mag_le_add [OF s2 mag_le_unit [OF fr1] small(7)])
  show ?thesis
    unfolding all_finite_def tt
    using mag_le_finite [OF b1] mag_le_finite [OF sub1] mag_le_finite [OF main1]
      mag_le_finite [OF rsub1] mag_le_finite [OF f1] mag_le_finite [OF fr1] mag_le_finite [OF s3]
    by simp
qed

lemma computeTotals_coerced:
  assumes t: "computeTotals n2s d = Some t"
  shows "isFinite (baseRate t) \<and> isFinite (fuelSubtotal t) \<and> addFan t = Fin 0"
proof -
  from computeTotals_SomeD [OF t] obtain b fr where
    b: "orDefault n2s (get d ''baseRate'') (default_rate ''baseRate'') = Some b"
    and fr: "orDefault n2s (get d ''fuelSurcharge'') (default_rate ''fuelSurcharge'') = Some fr"
    and tt: "baseRate t = b" "fuelSubtotal t = fr" "addFan t = Fin 0"
    by auto
  have dr: "default_rate ''baseRate'' = Fin 723" "default_rate ''fuelSurcharge'' = Fin 46"
    by (simp_all add: default_rate_def DEFAULT_RATES_def lookup_def)
  from orDefault_finite [OF b [unfolded dr]] obtain x where "b = Fin x" ..
  moreover from orDefault_finite [OF fr [unfolded dr]] obtain y where "fr = Fin y" ..
  ultimately show ?thesis by (simp add: tt)
qed

lemma reduce_items_returns:
  assumes "\<forall>a \<in> set items. \<not> nullish a \<and> convertible (get a ''qty'') \<and> convertible (get a ''rate'')"
  shows "\<exists>r. reduce_items n2s acc items = Some r"
  using assms
proof (induction items arbitrary: acc)
  case Nil
  then show ?case by simp
next
  case (Cons a as)
  then have a: "\<not> nullish a" "convertible (get a ''qty'')" "convertible (get a ''rate'')"
    by simp_all
  obtain q where q: "safeNum n2s (get a ''qty'') = Some q"
    using safeNum_returns [OF a(2)] by blast
  obtain p where p: "orDefault n2s (get a ''rate'') (default_rate ''additionalHoodRate'') = Some p"
    using orDefault_returns [OF a(3)] by blast
  from Cons obtain r where "reduce_items n2s (add acc (mul q p)) as = Some r"
    by (meson list.set_intros(2))
  with a q p show ?case by simp
qed

lemma reduce_repairs_returns:
  assumes "\<forall>a \<in> set rs. \<not> nullish a \<and> convertible (get a ''amount'')"
  shows "\<exists>r. reduce_repairs n2s acc rs = Some r"
  using assms
proof (induction rs arbitrary: acc)
  case Nil
  then show ?case by simp
next
  case (Cons a as)
  then have a: "\<not> nullish a" "convertible (get a ''amount'')" by simp_all
  obtain q where q: "safeNum n2s (get a ''amount'') = Some q"
    using safeNum_returns [OF a(2)] by blast
  from Cons obtain r where "reduce_repairs n2s (add acc q) as = Some r"
    by (meson list.set_intros(2))
  with a q show ?case by simp
qed

lemma item_readable:
  "is_item x \<Longrightarrow> \<not> nullish x \<and> convertible (get x ''qty'') \<and> convertible (get x ''rate'')"
  by (auto simp: is_item_def nullish_def get_def lookup_def)

lemma computeTotals_returns:
  assumes obj: "is_object d" and c: "convertible d"
    and ni: "\<forall>a \<in> set (elems (get d ''additionalItems'')). \<not> nullish a"
    and nr: "\<forall>r \<in> set (elems (get d ''repairs'')). \<not> nullish r"
  shows "\<exists>t. computeTotals n2s d = Some t"
proof -
  from obj have nn: "\<not> nullish d" and od: "or_js d (Obj []) = d"
    by (cases d; simp add: is_object_def nullish_def or_js_def truthy_def)+
  note g = convertible_get [OF c]
  obtain b where b: "orDefault n2s (get d ''baseRate'') (default_rate ''baseRate'') = Some b"
    using orDefault_returns [OF g] by blast
  obtain sr where sr: "orDefault n2s (get d ''stdFilterRate'') (default_rate ''stdFilterRate'') = Some sr"
    using orDefault_returns [OF g] by blast
  obtain nr' where nr': "orDefault n2s (get d ''nonStdFilterRate'') (default_rate ''nonStdFilterRate'') = Some nr'"
    using orDefault_returns [OF g] by blast
  obtain fr where fr: "orDefault n2s (get d ''fuelSurcharge'') (default_rate ''fuelSurcharge'') = Some fr"
    using orDefault_returns [OF g] by blast
  obtain sq where sq: "safeNum n2s (get d ''stdFilterQty'') = Some sq"
    using safeNum_returns [OF g] by blast
  obtain nq where nq: "safeNum n2s (get d ''nonStdFilterQty'') = Some nq"
    using safeNum_returns [OF g] by blast
  have "\<exists>items. totals_items n2s d = Some items
      \<and> (\<forall>a \<in> set (elems items). \<not> nullish a \<and> convertible (get a ''qty'') \<and> convertible (get a ''rate''))"
  proof (cases "isArray (get d ''additionalItems'')")
    case True
    have "convertible a" if "a \<in> set (elems (get d ''additionalItems''))" for a
      using convertible_elems [OF g that] .
    with ni True show ?thesis
      by (simp add: totals_items_def convertible_get)
  next
    case False
    obtain a where a: "normalizeAdditionalItems n2s d = Some a"
      using normalizeAdditionalItems_returns [OF nn, of n2s] g by blast
    from normalizeAdditionalItems_shape [OF a] obtain xs where "a = Arr xs" "list_all is_item xs"
      by blast
    with a False show ?thesis
      by (auto simp: totals_items_def od elems_def list_all_iff dest: item_readable)
  qed
  then obtain items where items: "totals_items n2s d = Some items"
    and ri: "\<forall>a \<in> set (elems items). \<not> nullish a \<and> convertible (get a ''qty'') \<and> convertible (get a ''rate'')"
    by blast
  obtain sub where sub: "reduce_items n2s (Fin 0) (elems items) = Some sub"
    using reduce_items_returns [OF ri] by blast
  have "\<exists>reps. totals_repairs n2s d = Some reps
      \<and> (\<forall>a \<in> set (elems reps). \<not> nullish a \<and> convertible (get a ''amount''))"
  proof (cases "isArray (get d ''repairs'')")
    case True
    have "convertible a" if "a \<in> set (elems (get d ''repairs''))" for a
      using convertible_elems [OF g that] .
    with nr True show ?thesis
      by (simp add: totals_repairs_def convertible_get)
  next
    case False
    obtain r where r: "normalizeRepairs n2s d = Some r"
      using normalizeRepairs_returns [OF nn, of n2s] g by blast
    have "\<exists>xs. r = Arr xs \<and> (\<forall>x \<in> set xs. \<not> nullish x \<and> convertible (get x ''amount''))"
    proof (cases "isArray (get d ''repairs'') \<and> 0 < length (elems (get d ''repairs''))")
      case True
      with False show ?thesis by simp
    next
      case nt: False
      have "\<not> nullish (Obj [(''description'', Str ds), (''amount'', Num q)])
          \<and> convertible (get (Obj [(''description'', Str ds), (''amount'', Num q)]) ''amount'')"
        for ds q
        by (simp add: nullish_def get_def lookup_def)
      with r nt nn show ?thesis
        by (auto simp: normalizeRepairs_def split: if_splits Option.bind_splits)
    qed
    with r False show ?thesis
      by (auto simp: totals_repairs_def od elems_def)
  qed
  then obtain reps where reps: "totals_repairs n2s d = Some reps"
    and rr: "\<forall>a \<in> set (elems reps). \<not> nullish a \<and> convertible (get a ''amount'')"
    by blast
  obtain rsub where rsub: "reduce_repairs n2s (Fin 0) (elems reps) = Some rsub"
    using reduce_repairs_returns [OF rr] by blast
  from b sr nr' fr sq nq nn sub rsub items [unfolded totals_items_def] reps [unfolded totals_repairs_def]
  show ?thesis
    unfolding computeTotals_def Let_def by (simp split: if_splits)
qed


lemma in_range_small: "\<bar>r\<bar> \<le> 1024 \<Longrightarrow> in_range n2s (Num (Fin r))"
proof -
  assume r: "\<bar>r\<bar> \<le> 1024"
  have "(2::rat) ^ 10 \<le> 2 ^ 480" by (rule power_increasing) simp_all
  then have "(1024::rat) \<le> operand_bound" by (simp add: operand_bound_def)
  with r show ?thesis by (simp add: in_range_def ToNumber_def)
qed

lemma in_range_Undefined: "in_range n2s Undefined"
  by (simp add: in_range_def ToNumber_def)

lemma huge_products:
  "rnd (huge * huge) = PInf" "rnd (- (huge * huge)) = NInf"
proof -
  have h: "huge * huge = 2 ^ 1200"
    unfolding huge_def power_add [symmetric] by simp
  have le: "(2::rat) ^ 1024 \<le> 2 ^ 1200" by (rule power_increasing) simp_all
  show "rnd (huge * huge) = PInf"
    unfolding h using le by (rule rnd_overflow_pos)
  have "- ((2::rat) ^ 1200) \<le> - (2 ^ 1024)"
    using le by (simp only: neg_le_iff_le)
  then show "rnd (- (huge * huge)) = NInf"
    unfolding h by (rule rnd_overflow_neg)
qed

text \<open>
  C3, as the code has it. Whenever \<open>computeTotals\<close> returns a record, as it does on every
  object (or array) in which no object has an own property named \<open>toString\<close> and no element
  of an array \<open>additionalItems\<close> or \<open>repairs\<close> is \<open>null\<close>: the base rate and the fuel
  subtotal are finite numbers and \<open>addFan\<close> is 0, since every rate, quantity and amount is
  coerced to a finite number before it is used; and every field of the record is a finite
  number, so none is \<open>NaN\<close>, when every coerced operand is at most \<open>2 ^ 480\<close> in magnitude.
  Beyond that range the claim is not made: a product or a sum of finite numbers can
  overflow to an infinity.
\<close>

theorem computeTotals_finite:
  "(\<forall>t. computeTotals n2s d = Some t \<longrightarrow>
      isFinite (baseRate t) \<and> isFinite (fuelSubtotal t) \<and> addFan t = Fin 0
      \<and> (operands_in_range n2s d \<longrightarrow> all_finite t))
   \<and> (is_object d \<and> convertible d
       \<and> (\<forall>a \<in> set (elems (get d ''additionalItems'')). \<not> nullish a)
       \<and> (\<forall>r \<in> set (elems (get d ''repairs'')). \<not> nullish r)
      \<longrightarrow> (\<exists>t. computeTotals n2s d = Some t))"
proof (intro conjI allI impI)
  fix t assume t: "computeTotals n2s d = Some t"
  from computeTotals_coerced [OF t]
  show "isFinite (baseRate t)" "isFinite (fuelSubtotal t)" "addFan t = Fin 0"
    by simp_all
  {
    assume "operands_in_range n2s d"
    with t show "all_finite t" by (rule computeTotals_in_range)
  }
next
  assume "is_object d \<and> convertible d
       \<and> (\<forall>a \<in> set (elems (get d ''additionalItems'')). \<not> nullish a)
       \<and> (\<forall>r \<in> set (elems (get d ''repairs'')). \<not> nullish r)"
  then show "\<exists>t. computeTotals n2s d = Some t"
    by (intro computeTotals_returns) simp_all
qed

theorem computeTotals_finite_witness:
  "is_object (Obj []) \<and> convertible (Obj []) \<and> operands_in_range n2s0 (Obj [])
   \<and> computeTotals n2s0 (Obj []) =
       Some \<lparr>baseRate = Fin 723, addHood = Fin 0, addFan = Fin 0, mainServiceSubtotal = Fin 723,
             repairsSubtotal = Fin 0, filtersSubtotal = Fin 0, fuelSubtotal = Fin 46,
             totalPerService = Fin 769\<rparr>
   \<and> all_finite \<lparr>baseRate = Fin 723, addHood = Fin 0, addFan = Fin 0, mainServiceSubtotal = Fin 723,
             repairsSubtotal = Fin 0, filtersSubtotal = Fin 0, fuelSubtotal = Fin 46,
             totalPerService = Fin 769\<rparr>"
proof -
  have ev: "computeTotals n2s0 (Obj []) =
       Some \<lparr>baseRate = Fin 723, addHood = Fin 0, addFan = Fin 0, mainServiceSubtotal = Fin 723,
             repairsSubtotal = Fin 0, filtersSubtotal = Fin 0, fuelSubtotal = Fin 46,
             totalPerService = Fin 769\<rparr>"
    by (simp add: computeTotals_def normalizeAdditionalItems_def normalizeRepairs_def Let_def
        num_eval val_eval draft_eval)
  have i: "totals_items n2s0 (Obj []) =
      Some (Arr [Obj [(''description'', Str ''Additional Hood''), (''qty'', Num (Fin 0)),
        (''rate'', Num (Fin 203)), (''frequency'', Str [])]])"
    by (simp add: totals_items_def normalizeAdditionalItems_def Let_def val_eval draft_eval)
  have r: "totals_repairs n2s0 (Obj []) =
      Some (Arr [Obj [(''description'', Str []), (''amount'', Num (Fin 0))]])"
    by (simp add: totals_repairs_def normalizeRepairs_def val_eval)
  have range: "operands_in_range n2s0 (Obj [])"
    unfolding operands_in_range_def i r
    by (simp add: get_def lookup_def elems_def in_range_Undefined in_range_small)
  have o: "is_object (Obj [])" "convertible (Obj [])"
    by (simp_all add: is_object_def has_key_def)
  from computeTotals_finite [of n2s0 "Obj []"] ev range o show ?thesis
    by simp
qed

text \<open>
  C3, as stated, fails: on the object with the two additional items \<open>{qty: 2^600, rate:
  2^600}\<close> and \<open>{qty: -2^600, rate: 2^600}\<close>, whose quantities and rates are finite
  numbers, the first product is \<open>Infinity\<close> and the second \<open>-Infinity\<close>; their sum, the
  field \<open>addHood\<close>, is \<open>NaN\<close>, and so are \<open>mainServiceSubtotal\<close> and
  \<open>totalPerService\<close>.
\<close>

theorem computeTotals_overflow_counterexample:
  "is_object overflow_draft
   \<and> computeTotals n2s0 overflow_draft =
       Some \<lparr>baseRate = Fin 723, addHood = NaN, addFan = Fin 0, mainServiceSubtotal = NaN,
             repairsSubtotal = Fin 0, filtersSubtotal = Fin 0, fuelSubtotal = Fin 46,
             totalPerService = NaN\<rparr>
   \<and> \<not> isFinite NaN"
  by (simp add: is_object_def overflow_draft_def computeTotals_def normalizeRepairs_def
      huge_products safeNum_def orDefault_def ToNumber_def default_rate_def DEFAULT_RATES_def
      lookup_def get_def nullish_def isArray_def elems_def or_js_def truthy_def mul_def
      rnd_zero Let_def)

end
